theory Spec2Isabelle
  imports Complex_Main "HOL-Library.AList" "HOL-Library.Signed_Division"
begin

section \<open>Values, errors and the binding table of SQInput.js\<close>

text \<open>
  A binding is a JavaScript value: a keyboard code is a string (\<open>event.code\<close>), a gamepad
  button is a number (the index of the button). Both fields of a table entry are read and
  written through \<open>input[type]\<close>, so both hold a \<open>jsval\<close>; \<open>===\<close> on strings and
  integers is equality of the values.
\<close>

datatype jsval = Str string | Num int

datatype error = TypeError | IndexOutOfRange

text \<open>A JavaScript number that may be \<open>NaN\<close> (the sum of a number and \<open>undefined\<close>).\<close>

datatype jsnum = Number int | NaN

datatype slot = KeyboardButton | GamepadButton

datatype device = Keyboard | Gamepad

datatype edge = Press | Release

text \<open>Sequencing of computations that may throw.\<close>

definition err_bind :: "error + 'a \<Rightarrow> ('a \<Rightarrow> error + 'b) \<Rightarrow> error + 'b" where
  "err_bind m f = (case m of Inl e \<Rightarrow> Inl e | Inr x \<Rightarrow> f x)"

text \<open>
  Property keys are strings: a number used as a key is written in decimal
  (\<open>newKeyboardMap[input.keyboardButton]\<close>, \<open>this.gamepadMapper[j]\<close>).
\<close>

definition digit_char :: "nat \<Rightarrow> char" where
  "digit_char d = ''0123456789'' ! d"

fun show_nat :: "nat \<Rightarrow> string" where
  "show_nat n = (if n < 10 then [digit_char n] else show_nat (n div 10) @ [digit_char (n mod 10)])"

declare show_nat.simps [simp del]

definition show_int :: "int \<Rightarrow> string" where
  "show_int i = (if i < 0 then CHR ''-'' # show_nat (nat (- i)) else show_nat (nat i))"

fun key_of :: "jsval \<Rightarrow> string" where
  "key_of (Str s) = s"
| "key_of (Num n) = show_int n"

text \<open>
  One entry of \<open>SQInput.inputs\<close>, after \<open>SQInput.initialize\<close> has stored the default
  buttons and the id (the key of the entry) in it.
\<close>

record control =
  fn_name :: string
  fieldTitle :: string
  keyboardButton :: jsval
  gamepadButton :: jsval
  defaultKeyboardButton :: jsval
  defaultGamepButton :: jsval
  fn_id :: string

text \<open>
  \<open>SQInput.inputs\<close> is an object whose keys are the function names; \<open>for (let i in
  this.inputs)\<close> and \<open>Object.keys\<close> visit them in insertion order, so the table is an
  association list. The names are not array indices and not properties of
  \<open>Object.prototype\<close>.
\<close>

type_synonym table = "(string \<times> control) list"

definition mk_control :: "string \<Rightarrow> string \<Rightarrow> string \<Rightarrow> string \<Rightarrow> int \<Rightarrow> string \<times> control" where
  "mk_control i n t k g =
     (i, \<lparr>fn_name = n, fieldTitle = t, keyboardButton = Str k, gamepadButton = Num g,
          defaultKeyboardButton = Str k, defaultGamepButton = Num g, fn_id = i\<rparr>)"

definition default_inputs :: table where
  "default_inputs =
     [mk_control ''up'' ''up'' ''Up'' ''ArrowUp'' 12,
      mk_control ''down'' ''down'' ''Down'' ''ArrowDown'' 13,
      mk_control ''left'' ''left'' ''Left'' ''ArrowLeft'' 14,
      mk_control ''right'' ''right'' ''Right'' ''ArrowRight'' 15,
      mk_control ''cancel'' ''cancel'' ''Cancel'' ''KeyX'' 1,
      mk_control ''confirm'' ''confirm'' ''Confirm'' ''KeyZ'' 0,
      mk_control ''menu'' ''menu'' ''Menu'' ''KeyS'' 3,
      mk_control ''dash'' ''dash'' ''Dash'' ''KeyQ'' 6,
      mk_control ''cycle_right'' ''pageup'' ''Page Up'' ''PageUp'' 7,
      mk_control ''cycle_left'' ''pagedown'' ''Page Down'' ''PageDown'' 8]"

text \<open>\<open>input[type]\<close> and \<open>input[type] = v\<close> for the two binding slots.\<close>

fun slot_get :: "slot \<Rightarrow> control \<Rightarrow> jsval" where
  "slot_get KeyboardButton c = keyboardButton c"
| "slot_get GamepadButton c = gamepadButton c"

fun slot_set :: "slot \<Rightarrow> jsval \<Rightarrow> control \<Rightarrow> control" where
  "slot_set KeyboardButton v c = c\<lparr>keyboardButton := v\<rparr>"
| "slot_set GamepadButton v c = c\<lparr>gamepadButton := v\<rparr>"

section \<open>The state of SQInput and of Input\<close>

text \<open>
  The callbacks that the repository installs are the handlers of the remap scene
  (\<open>Scene_SQControls.startRemap\<close>), bound to the target function; any other handler is
  an external one, named by a number, whose effect is a parameter of the model.
\<close>

datatype kb_callback = RemapKeyboardInputHandler "control option" | ExternalKeyboard nat

datatype gp_callback =
    ArmReleaseClosure "control option"
  | RemapGamepadInputHandler "control option"
  | ExternalGamepad nat

text \<open>
  A value of \<open>_currentState\<close>, \<open>_previousState\<close> or of a gamepad state vector is
  \<open>true\<close>, \<open>false\<close> or \<open>undefined\<close> (\<open>None\<close>). The objects \<open>_currentState\<close> and
  \<open>_previousState\<close> keep their keys in insertion order; the lookup maps are only read
  by key. \<open>latestButton = None\<close> is \<open>_latestButton = null\<close>.
  The fields \<open>_dir4\<close>, \<open>_dir8\<close>, \<open>_preferredAxis\<close>, \<open>_date\<close> and \<open>_gamepadAxes\<close>
  are written but never read by the functions below and are left out.
\<close>

record sq_state =
  inputs :: table
  keyMapper :: "(string \<times> string list) list"
  gamepadMapper :: "(string \<times> string list) list"
  currentState :: "(string \<times> bool option) list"
  previousState :: "(string \<times> bool option) list"
  gamepadStates :: "(nat \<times> bool option list) list"
  latestButton :: "string list option"
  pressedTime :: nat
  virtualButton :: "string option"
  keyboardInputCallback :: "kb_callback option"
  gamepadInputCallback :: "gp_callback option"
  gamepadInputCallbackType :: "edge option"
  lastInputDevice :: device
  activeButtonSet :: int
  activeGamepadIndex :: "nat option"
  targetGamepadName :: "string option"
  resetMapFlag :: bool

text \<open>A value is truthy when it is \<open>true\<close>.\<close>

definition truthy :: "(string \<times> bool option) list \<Rightarrow> string \<Rightarrow> bool" where
  "truthy st n = (map_of st n = Some (Some True))"

section \<open>Input.clear\<close>

text \<open>
  \<open>Input.clear\<close> (lines 1178-1193): every key of \<open>_currentState\<close> and every key of
  \<open>_previousState\<close> is set to \<open>false\<close> in \<open>_currentState\<close>; \<open>_previousState\<close> itself
  is not written; \<open>_latestButton\<close> becomes \<open>null\<close>.
\<close>

definition set_all_false :: "string list \<Rightarrow> (string \<times> bool option) list \<Rightarrow> (string \<times> bool option) list" where
  "set_all_false ks st = fold (\<lambda>k m. AList.update k (Some False) m) ks st"

definition clear :: "sq_state \<Rightarrow> sq_state" where
  "clear s =
     (let cs1 = set_all_false (map fst (currentState s)) (currentState s);
          cs2 = set_all_false (map fst (previousState s)) cs1
      in s\<lparr>currentState := cs2, gamepadStates := [], latestButton := None,
            pressedTime := 0, virtualButton := None\<rparr>)"

section \<open>SQInput.rebuildButtonMapper\<close>

text \<open>\<open>this.inputs[k]\<close> where a property of the entry is read next: a missing entry throws.\<close>

definition the_input :: "table \<Rightarrow> string \<Rightarrow> error + control" where
  "the_input t k = (case map_of t k of None \<Rightarrow> Inl TypeError | Some c \<Rightarrow> Inr c)"

text \<open>Lines 555-559: every function's keyboard code maps to the one-element list of its key.\<close>

definition keyboard_loop :: "table \<Rightarrow> (string \<times> string list) list" where
  "keyboard_loop t = fold (\<lambda>(i, input) m. AList.update (key_of (keyboardButton input)) [i] m) t []"

text \<open>Lines 561-568: the static names are added only where the key is not mapped yet.\<close>

definition add_static :: "string \<Rightarrow> string \<Rightarrow> (string \<times> string list) list \<Rightarrow> (string \<times> string list) list" where
  "add_static k n m = (if map_of m k = None then AList.update k [n] m else m)"

text \<open>Lines 570-576.\<close>

definition newKeyboardMap :: "table \<Rightarrow> error + (string \<times> string list) list" where
  "newKeyboardMap t =
     (let m0 = keyboard_loop t;
          m1 = add_static ''Tab'' ''static_tab'' m0;
          m2 = add_static ''Escape'' ''static_escape'' m1
      in err_bind (the_input t ''cancel'') (\<lambda>cancel.
         let m3 = AList.update (key_of (keyboardButton cancel)) [''cancel''] m2
         in err_bind (the_input t ''confirm'') (\<lambda>confirm.
         let m4 = AList.update (key_of (keyboardButton confirm)) [''confirm'', ''ok''] m3
         in err_bind (the_input t ''dash'') (\<lambda>dash.
         let m5 = AList.update (key_of (keyboardButton dash)) [''shift''] m4
         in err_bind (the_input t ''cycle_left'') (\<lambda>cycle_left.
         let m6 = AList.update (key_of (keyboardButton cycle_left)) [''pageup''] m5
         in err_bind (the_input t ''cycle_right'') (\<lambda>cycle_right.
         Inr (AList.update (key_of (keyboardButton cycle_right)) [''pagedown''] m6)))))))"

text \<open>Lines 580-590: the names of the functions bound to a button, in table order.\<close>

definition push_name :: "string \<Rightarrow> string \<Rightarrow> (string \<times> string list) list \<Rightarrow> (string \<times> string list) list" where
  "push_name k i m =
     (case map_of m k of None \<Rightarrow> AList.update k [i] m | Some ns \<Rightarrow> AList.update k (ns @ [i]) m)"

definition gamepad_loop :: "table \<Rightarrow> (string \<times> string list) list" where
  "gamepad_loop t = fold (\<lambda>(i, input) m. push_name (key_of (gamepadButton input)) i m) t []"

text \<open>Lines 592-598: the keys \<open>0\<close> to \<open>15\<close> of \<open>SQInput.gamepadMapper\<close> get an empty list
  where no function is bound.\<close>

definition merge_base :: "(string \<times> string list) list \<Rightarrow> (string \<times> string list) list" where
  "merge_base m =
     fold (\<lambda>b m'. if map_of m' (show_nat b) = None then AList.update (show_nat b) [] m' else m')
       [0..<16] m"

text \<open>Lines 600-603.\<close>

definition newGamepadMap :: "table \<Rightarrow> error + (string \<times> string list) list" where
  "newGamepadMap t =
     (let m1 = merge_base (gamepad_loop t)
      in err_bind (the_input t ''cancel'') (\<lambda>cancel.
         let m2 = AList.update (key_of (gamepadButton cancel)) [''cancel''] m1
         in err_bind (the_input t ''confirm'') (\<lambda>confirm.
         let m3 = AList.update (key_of (gamepadButton confirm)) [''confirm'', ''ok''] m2
         in err_bind (the_input t ''dash'') (\<lambda>dash.
         Inr (AList.update (key_of (gamepadButton dash)) [''shift''] m3)))))"

definition rebuildButtonMapper :: "sq_state \<Rightarrow> error + sq_state" where
  "rebuildButtonMapper s =
     err_bind (newKeyboardMap (inputs s)) (\<lambda>km.
     err_bind (newGamepadMap (inputs s)) (\<lambda>gm.
     Inr (clear (s\<lparr>keyMapper := km, gamepadMapper := gm\<rparr>))))"

section \<open>Rebinding and resetting\<close>

text \<open>Lines 769-777: the first other function, in table order, whose slot holds the value.\<close>

fun duplicateFunction :: "slot \<Rightarrow> jsval \<Rightarrow> string \<Rightarrow> table \<Rightarrow> string option" where
  "duplicateFunction ty keyCode c [] = None"
| "duplicateFunction ty keyCode c ((i, input) # rest) =
     (if slot_get ty input = keyCode \<and> i \<noteq> c then Some i
      else duplicateFunction ty keyCode c rest)"

text \<open>
  \<open>SQInput.setControlButton\<close> (lines 764-787). An unknown control returns at once.
  \<open>if (duplicateFunction)\<close> is false for \<open>null\<close> and for the empty name.
\<close>

definition rebind_table :: "string \<Rightarrow> jsval \<Rightarrow> slot \<Rightarrow> control \<Rightarrow> table \<Rightarrow> table" where
  "rebind_table c keyCode ty cur t =
     (let t1 = (case duplicateFunction ty keyCode c t of
                  None \<Rightarrow> t
                | Some d \<Rightarrow> if d = [] then t
                            else AList.map_entry d (slot_set ty (slot_get ty cur)) t)
      in AList.map_entry c (slot_set ty keyCode) t1)"

definition setControlButton :: "string \<Rightarrow> jsval \<Rightarrow> slot \<Rightarrow> sq_state \<Rightarrow> error + sq_state" where
  "setControlButton c keyCode ty s =
     (case map_of (inputs s) c of
        None \<Rightarrow> Inr s
      | Some cur \<Rightarrow> rebuildButtonMapper (s\<lparr>inputs := rebind_table c keyCode ty cur (inputs s)\<rparr>))"

definition setGamepadButton :: "string \<Rightarrow> jsval \<Rightarrow> sq_state \<Rightarrow> error + sq_state" where
  "setGamepadButton c buttonIndex s = setControlButton c buttonIndex GamepadButton s"

definition setKeyboardButton :: "string \<Rightarrow> jsval \<Rightarrow> sq_state \<Rightarrow> error + sq_state" where
  "setKeyboardButton c keyCode s = setControlButton c keyCode KeyboardButton s"

text \<open>\<open>SQInput.resetMap\<close> (lines 541-549).\<close>

definition resetMap :: "sq_state \<Rightarrow> error + sq_state" where
  "resetMap s =
     rebuildButtonMapper
       (s\<lparr>inputs := map (\<lambda>(i, input). (i, input\<lparr>keyboardButton := defaultKeyboardButton input,
                                                gamepadButton := defaultGamepButton input\<rparr>))
                      (inputs s)\<rparr>)"

text \<open>
  The state after \<open>Input.initialize\<close>: the engine's initialisation clears the input
  state, then \<open>SQInput.initialize\<close> (lines 495-515) stores the defaults and, with no
  custom controls configured, rebuilds the lookup maps from the default table.
\<close>

definition blank_state :: sq_state where
  "blank_state =
     \<lparr>inputs = default_inputs, keyMapper = [], gamepadMapper = [], currentState = [],
      previousState = [], gamepadStates = [], latestButton = None, pressedTime = 0,
      virtualButton = None, keyboardInputCallback = None, gamepadInputCallback = None,
      gamepadInputCallbackType = None, lastInputDevice = Keyboard, activeButtonSet = 0,
      activeGamepadIndex = None, targetGamepadName = None, resetMapFlag = False\<rparr>"

definition initial_state :: "error + sq_state" where
  "initial_state = rebuildButtonMapper blank_state"

section \<open>Ordinal lookup\<close>

text \<open>
  \<open>SQInput.getInputByIndex\<close> (lines 534-537): \<open>keys[index]\<close> is \<open>undefined\<close> outside
  the array, and \<open>this.inputs[undefined]\<close> reads the property named \<open>undefined\<close>.
  The function has no statement that throws; \<open>None\<close> is the result \<open>undefined\<close>.
\<close>

definition getInputByIndex :: "table \<Rightarrow> int \<Rightarrow> error + control option" where
  "getInputByIndex t index =
     (let keys = map fst t
      in if 0 \<le> index \<and> nat index < length keys then Inr (map_of t (keys ! nat index))
         else Inr (map_of t ''undefined''))"

section \<open>Icon resolution\<close>

definition gamepadIndexToIconIndex :: "(string \<times> int) list" where
  "gamepadIndexToIconIndex =
     [(''14'', 0), (''12'', 1), (''15'', 2), (''13'', 3), (''10'', 4), (''11'', 5), (''9'', 6),
      (''8'', 7), (''3'', 8), (''1'', 9), (''0'', 10), (''2'', 11), (''4'', 12), (''5'', 13),
      (''6'', 14), (''7'', 15)]"

definition codeToIconIndex :: "(string \<times> int) list" where
  "codeToIconIndex =
     [(''ArrowLeft'', 0), (''ArrowUp'', 1), (''ArrowRight'', 2), (''ArrowDown'', 3), (''null'', 0),
      (''Enter'', 1), (''Space'', 2), (''ControlLeft'', 3), (''ControlRight'', 3),
      (''ShiftLeft'', 4), (''ShiftRight'', 4), (''AltLeft'', 5), (''AltRight'', 5), (''Tab'', 6),
      (''Backspace'', 7), (''Insert'', 8), (''Delete'', 9), (''Home'', 10), (''End'', 11),
      (''PageUp'', 12), (''PageDown'', 13), (''CapsLock'', 14), (''Pause'', 15),
      (''Digit0'', 16), (''Digit1'', 17), (''Digit2'', 18), (''Digit3'', 19), (''Digit4'', 20),
      (''Digit5'', 21), (''Digit6'', 22), (''Digit7'', 23), (''Digit8'', 24), (''Digit9'', 25),
      (''Numpad0'', 16), (''Numpad1'', 17), (''Numpad2'', 18), (''Numpad3'', 19),
      (''Numpad4'', 20), (''Numpad5'', 21), (''Numpad6'', 22), (''Numpad7'', 23),
      (''Numpad8'', 24), (''Numpad9'', 25), (''Slash'', 27), (''Equal'', 28), (''Minus'', 29),
      (''KeyA'', 32), (''KeyB'', 33), (''KeyC'', 34), (''KeyD'', 35), (''KeyE'', 36),
      (''KeyF'', 37), (''KeyG'', 38), (''KeyH'', 39), (''KeyI'', 40), (''KeyJ'', 41),
      (''KeyK'', 42), (''KeyL'', 43), (''KeyM'', 44), (''KeyN'', 45), (''KeyO'', 46),
      (''KeyP'', 47), (''KeyQ'', 48), (''KeyR'', 49), (''KeyS'', 50), (''KeyT'', 51),
      (''KeyU'', 52), (''KeyV'', 53), (''KeyW'', 54), (''KeyX'', 55), (''KeyY'', 56),
      (''KeyZ'', 57), (''231'', 58), (''Backslash'', 65), (''BracketLeft'', 66),
      (''BracketRight'', 67), (''Comma'', 72), (''Period'', 73), (''Quote'', 74),
      (''Backquote'', 75), (''Semicolon'', 85), (''Escape'', 95)]"

text \<open>
  The plugin parameter \<open>iconOffset\<close> is \<open>baseControlIconIndex\<close>, the argument \<open>base\<close>
  below (lines 466-482).
\<close>

definition buttonSetSize :: int where
  "buttonSetSize = 16"

definition maxButtonSets :: int where
  "maxButtonSets = 4"

definition defaultButtonIcon :: "int \<Rightarrow> int" where
  "defaultButtonIcon base = base + buttonSetSize * maxButtonSets"

definition baseKeyboardIconIndex :: "int \<Rightarrow> int" where
  "baseKeyboardIconIndex base = base + buttonSetSize * maxButtonSets"

text \<open>Adding the result of a table lookup: \<open>undefined\<close> makes the sum \<open>NaN\<close>.\<close>

fun js_add :: "jsnum \<Rightarrow> int option \<Rightarrow> jsnum" where
  "js_add (Number a) (Some b) = Number (a + b)"
| "js_add _ _ = NaN"

fun js_minus :: "jsnum \<Rightarrow> int \<Rightarrow> jsnum" where
  "js_minus (Number a) b = Number (a - b)"
| "js_minus NaN b = NaN"

definition startsWith :: "string \<Rightarrow> string \<Rightarrow> bool" where
  "startsWith s p = (take (length p) s = p)"

text \<open>\<open>SQInput.getKeyboardControlIconIndex\<close> (lines 801-811); a number has no
  \<open>startsWith\<close>.\<close>

definition getKeyboardControlIconIndex :: "int \<Rightarrow> sq_state \<Rightarrow> string \<Rightarrow> error + jsnum" where
  "getKeyboardControlIconIndex base s param =
     err_bind (the_input (inputs s) param) (\<lambda>input.
       let iconIndex = js_add (Number (baseKeyboardIconIndex base))
                         (map_of codeToIconIndex (key_of (keyboardButton input)))
       in case keyboardButton input of
            Num n \<Rightarrow> Inl TypeError
          | Str code \<Rightarrow> Inr (if startsWith code ''Arrow'' then js_minus iconIndex 64 else iconIndex))"

text \<open>\<open>SQInput.getGamepadControlIconIndex\<close> (lines 815-818).\<close>

definition getGamepadControlIconIndex :: "int \<Rightarrow> sq_state \<Rightarrow> string \<Rightarrow> error + jsnum" where
  "getGamepadControlIconIndex base s param =
     err_bind (the_input (inputs s) param) (\<lambda>input.
       Inr (js_add (Number (base + buttonSetSize * activeButtonSet s))
              (map_of gamepadIndexToIconIndex (key_of (gamepadButton input)))))"

text \<open>
  The branch \<open>code === "KB"\<close> of \<open>Window_Base.prototype.obtainEscapeCodeIconIndex\<close>
  (lines 879-892), which draws the icon of a key code given directly.
\<close>

definition arrowCodes :: "string list" where
  "arrowCodes = [''ArrowLeft'', ''ArrowUp'', ''ArrowRight'', ''ArrowDown'']"

fun indexOf :: "string list \<Rightarrow> string \<Rightarrow> int" where
  "indexOf [] x = -1"
| "indexOf (y # ys) x = (if y = x then 0 else (let r = indexOf ys x in if r < 0 then r else r + 1))"

definition escapeCodeKB :: "int \<Rightarrow> string \<Rightarrow> int" where
  "escapeCodeKB base param =
     (if param \<in> set arrowCodes then base + indexOf arrowCodes param
      else case map_of codeToIconIndex param of
             Some i \<Rightarrow> baseKeyboardIconIndex base + i
           | None \<Rightarrow> defaultButtonIcon base)"

section \<open>Saving and loading the configuration\<close>

record buttons =
  cfg_keyboardButton :: jsval
  cfg_gamepadButton :: jsval

text \<open>\<open>config.SQConfig\<close>; a field that is absent from the object is \<open>None\<close>.\<close>

record sq_config =
  buttonSet :: "int option"
  gamepadName :: "string option option"
  controlMap :: "(string \<times> buttons) list option"

text \<open>\<open>SQInput.getControlMap\<close> (lines 730-742).\<close>

definition getControlMap :: "sq_state \<Rightarrow> (string \<times> buttons) list" where
  "getControlMap s =
     fold (\<lambda>(func, funcData) m.
             AList.update func \<lparr>cfg_keyboardButton = keyboardButton funcData,
                                cfg_gamepadButton = gamepadButton funcData\<rparr> m)
       (inputs s) []"

text \<open>\<open>ConfigManager.makeData\<close> (lines 1226-1236), the part under \<open>SQConfig\<close>.\<close>

definition makeData :: "sq_state \<Rightarrow> sq_config" where
  "makeData s =
     \<lparr>buttonSet = Some (activeButtonSet s), gamepadName = Some (targetGamepadName s),
      controlMap = Some (getControlMap s)\<rparr>"

text \<open>\<open>SQInput.setControlMap\<close> (lines 747-761), for a map that is an object.\<close>

definition setControlMap :: "(string \<times> buttons) list \<Rightarrow> sq_state \<Rightarrow> error + sq_state" where
  "setControlMap m s =
     rebuildButtonMapper
       (s\<lparr>inputs := fold (\<lambda>(key, b) t.
                            AList.map_entry key
                              (\<lambda>func. func\<lparr>gamepadButton := cfg_gamepadButton b,
                                            keyboardButton := cfg_keyboardButton b\<rparr>) t)
                      m (inputs s)\<rparr>)"

text \<open>
  \<open>SQInput.numButtonSets\<close> (line 476) from the plugin parameter \<open>buttonSetCount\<close>, and
  \<open>SQInput.changeButtonSet\<close> (lines 620-623); \<open>%\<close> takes the sign of the dividend.
\<close>

definition numButtonSets :: "int \<Rightarrow> int" where
  "numButtonSets buttonSetCount =
     (let m = min buttonSetCount maxButtonSets in if m = 0 then 4 else m)"

definition changeButtonSet :: "int \<Rightarrow> int \<Rightarrow> sq_state \<Rightarrow> sq_state" where
  "changeButtonSet n setIndex s = s\<lparr>activeButtonSet := setIndex smod n\<rparr>"

definition setTargetGamepadName :: "string option \<Rightarrow> sq_state \<Rightarrow> sq_state" where
  "setTargetGamepadName n s = s\<lparr>targetGamepadName := n\<rparr>"

text \<open>
  \<open>ConfigManager.applyData\<close> (lines 1239-1259), the part that reads \<open>SQConfig\<close>;
  \<open>parseInt(x || 0)\<close> of an integer \<open>x\<close> is \<open>x\<close>. \<open>n\<close> is \<open>SQInput.numButtonSets\<close>;
  \<open>clamp\<close> is the method \<open>clamp\<close> that the engine adds to numbers, which is not in
  the plugin's files.
\<close>

definition applyData ::
  "(int \<Rightarrow> int \<Rightarrow> int \<Rightarrow> int) \<Rightarrow> int \<Rightarrow> sq_config \<Rightarrow> sq_state \<Rightarrow> error + sq_state" where
  "applyData clamp n sqConfig s =
     (let bs = (case buttonSet sqConfig of Some b \<Rightarrow> clamp b 0 n | None \<Rightarrow> activeButtonSet s);
          gn = (case gamepadName sqConfig of Some g \<Rightarrow> g | None \<Rightarrow> None);
          cm = (case controlMap sqConfig of Some m \<Rightarrow> m | None \<Rightarrow> [])
      in setControlMap cm (setTargetGamepadName gn (changeButtonSet n bs s)))"

section \<open>The capture protocol\<close>

record key_event =
  ev_code :: string
  ev_keyCode :: nat
  ev_which :: nat

text \<open>The effect of the external handlers, by their number.\<close>

record externals =
  ext_keyboard :: "nat \<Rightarrow> key_event \<Rightarrow> sq_state \<Rightarrow> error + sq_state"
  ext_gamepad :: "nat \<Rightarrow> nat \<Rightarrow> edge \<Rightarrow> sq_state \<Rightarrow> error + sq_state"

text \<open>Lines 667-686 and 707-715.\<close>

definition onNextGamepadRelease :: "gp_callback \<Rightarrow> sq_state \<Rightarrow> sq_state" where
  "onNextGamepadRelease callback s =
     s\<lparr>gamepadInputCallback := Some callback, gamepadInputCallbackType := Some Release\<rparr>"

definition onNextGamepadPress :: "gp_callback \<Rightarrow> sq_state \<Rightarrow> sq_state" where
  "onNextGamepadPress callback s =
     s\<lparr>gamepadInputCallback := Some callback, gamepadInputCallbackType := Some Press\<rparr>"

definition onNextGamepadInput :: "gp_callback \<Rightarrow> sq_state \<Rightarrow> sq_state" where
  "onNextGamepadInput callback s = onNextGamepadPress callback s"

definition cancelOnNextGamepadInput :: "sq_state \<Rightarrow> sq_state" where
  "cancelOnNextGamepadInput s = s\<lparr>gamepadInputCallback := None, gamepadInputCallbackType := None\<rparr>"

definition onNextKeyboardInput :: "kb_callback \<Rightarrow> sq_state \<Rightarrow> sq_state" where
  "onNextKeyboardInput callback s = s\<lparr>keyboardInputCallback := Some callback\<rparr>"

definition cancelOnNextKeyboardInput :: "sq_state \<Rightarrow> sq_state" where
  "cancelOnNextKeyboardInput s = s\<lparr>keyboardInputCallback := None\<rparr>"

text \<open>
  The handlers of the remap scene (SQControlRemapper.js, lines 291-366), without the
  windows, the sounds and the saving of the configuration. \<open>targetFunction.id\<close> throws
  when \<open>getInputByIndex\<close> returned \<open>undefined\<close>.
\<close>

definition cancelRemap :: "sq_state \<Rightarrow> sq_state" where
  "cancelRemap s = cancelOnNextKeyboardInput (cancelOnNextGamepadInput s)"

definition target_id :: "control option \<Rightarrow> error + string" where
  "target_id targetFunction = (case targetFunction of None \<Rightarrow> Inl TypeError | Some f \<Rightarrow> Inr (fn_id f))"

definition remapKeyboardInputHandler :: "control option \<Rightarrow> key_event \<Rightarrow> sq_state \<Rightarrow> error + sq_state" where
  "remapKeyboardInputHandler targetFunction event s =
     err_bind (if ev_which event \<noteq> 27
               then err_bind (target_id targetFunction)
                      (\<lambda>i. setKeyboardButton i (Str (ev_code event)) s)
               else Inr s)
       (\<lambda>s'. Inr (cancelRemap s'))"

definition remapGamepadInputHandler :: "control option \<Rightarrow> nat \<Rightarrow> edge \<Rightarrow> sq_state \<Rightarrow> error + sq_state" where
  "remapGamepadInputHandler targetFunction buttonIndex ty s =
     err_bind (if ty = Release
               then err_bind (target_id targetFunction)
                      (\<lambda>i. setGamepadButton i (Num (int buttonIndex)) s)
               else Inr s)
       (\<lambda>s'. Inr (cancelRemap s'))"

definition invoke_keyboard :: "externals \<Rightarrow> kb_callback \<Rightarrow> key_event \<Rightarrow> sq_state \<Rightarrow> error + sq_state" where
  "invoke_keyboard ext callback event s =
     (case callback of
        RemapKeyboardInputHandler targetFunction \<Rightarrow> remapKeyboardInputHandler targetFunction event s
      | ExternalKeyboard n \<Rightarrow> ext_keyboard ext n event s)"

definition invoke_gamepad :: "externals \<Rightarrow> gp_callback \<Rightarrow> nat \<Rightarrow> edge \<Rightarrow> sq_state \<Rightarrow> error + sq_state" where
  "invoke_gamepad ext callback buttonIndex ty s =
     (case callback of
        ArmReleaseClosure targetFunction \<Rightarrow>
          Inr (onNextGamepadRelease (RemapGamepadInputHandler targetFunction) s)
      | RemapGamepadInputHandler targetFunction \<Rightarrow>
          remapGamepadInputHandler targetFunction buttonIndex ty s
      | ExternalGamepad n \<Rightarrow> ext_gamepad ext n buttonIndex ty s)"

text \<open>
  \<open>Scene_SQControls.startRemap\<close> (lines 291-325) for the selected cell of the remap
  window.
\<close>

definition startRemap :: "int \<Rightarrow> sq_state \<Rightarrow> error + sq_state" where
  "startRemap selectedIndex s =
     (let indexMod = selectedIndex smod 3
      in if indexMod = 0 then Inr s
         else err_bind (getInputByIndex (inputs s) (selectedIndex div 3)) (\<lambda>targetFunction.
                if indexMod = 2 then Inr (onNextKeyboardInput (RemapKeyboardInputHandler targetFunction) s)
                else if indexMod = 1 then Inr (onNextGamepadPress (ArmReleaseClosure targetFunction) s)
                else Inr s))"

section \<open>Gamepads\<close>

text \<open>A gamepad as \<open>navigator.getGamepads()\<close> returns it.\<close>

record gamepad =
  pad_index :: nat
  pad_id :: string
  pad_connected :: bool
  pad_buttons :: "bool list"
  pad_axes :: "real list"

fun first_index :: "('a \<Rightarrow> bool) \<Rightarrow> 'a list \<Rightarrow> nat \<Rightarrow> nat option" where
  "first_index P [] i = None"
| "first_index P (x # xs) i = (if P x then Some i else first_index P xs (Suc i))"

text \<open>
  \<open>SQInput.updateActiveGamepad\<close> (lines 640-664); \<open>!this.activeGamepadIndex\<close> holds for
  \<open>null\<close> and for the index 0, and an empty name is no target.
\<close>

definition updateActiveGamepad :: "gamepad option list \<Rightarrow> sq_state \<Rightarrow> sq_state" where
  "updateActiveGamepad allGamepads s =
     (let s1 = (case targetGamepadName s of
                  None \<Rightarrow> s
                | Some n \<Rightarrow>
                    if n = [] then s
                    else (case first_index (\<lambda>g. case g of None \<Rightarrow> False | Some gp \<Rightarrow> pad_id gp = n)
                                 allGamepads 0 of
                            None \<Rightarrow> s
                          | Some i \<Rightarrow> s\<lparr>activeGamepadIndex := Some i\<rparr>))
      in if activeGamepadIndex s1 = None \<or> activeGamepadIndex s1 = Some 0
         then (case first_index (\<lambda>g. g \<noteq> None) allGamepads 0 of
                 None \<Rightarrow> s1
               | Some i \<Rightarrow> s1\<lparr>activeGamepadIndex := Some i\<rparr>)
         else s1)"

text \<open>
  \<open>SQInput.nextGamepadInputHandler\<close> (lines 688-704). The result carries the calls of the
  callback that were made: the callback, the button index and the edge.
\<close>

definition nextGamepadInputHandler ::
  "externals \<Rightarrow> gamepad option list \<Rightarrow> nat \<Rightarrow> edge \<Rightarrow> sq_state \<Rightarrow>
   error + (sq_state \<times> (gp_callback \<times> nat \<times> edge) list)" where
  "nextGamepadInputHandler ext allGamepads buttonIndex ty s =
     err_bind
       (case gamepadInputCallback s of
          None \<Rightarrow> Inr (s, [])
        | Some callback \<Rightarrow>
            if gamepadInputCallbackType s = Some ty
            then err_bind
                   (invoke_gamepad ext callback buttonIndex ty
                      (s\<lparr>gamepadInputCallback := None, gamepadInputCallbackType := None\<rparr>))
                   (\<lambda>s'. Inr (s', [(callback, buttonIndex, ty)]))
            else Inr (s, []))
       (\<lambda>(s1, calls).
          Inr (if lastInputDevice s1 \<noteq> Gamepad
               then (updateActiveGamepad allGamepads s1)\<lparr>lastInputDevice := Gamepad\<rparr>
               else s1, calls))"

text \<open>\<open>SQInput.nextKeyboardInputHandler\<close> (lines 718-725).\<close>

definition nextKeyboardInputHandler ::
  "externals \<Rightarrow> key_event \<Rightarrow> sq_state \<Rightarrow> error + (sq_state \<times> (kb_callback \<times> key_event) list)" where
  "nextKeyboardInputHandler ext event s =
     err_bind
       (case keyboardInputCallback s of
          None \<Rightarrow> Inr (s, [])
        | Some callback \<Rightarrow>
            err_bind (invoke_keyboard ext callback event s)
              (\<lambda>s'. Inr (s'\<lparr>keyboardInputCallback := None\<rparr>, [(callback, event)])))
       (\<lambda>(s1, calls). Inr (s1\<lparr>lastInputDevice := Keyboard\<rparr>, calls))"

text \<open>
  Reading an array: an index past the end and a hole both give \<open>undefined\<close>. Writing past
  the end leaves holes.
\<close>

definition nth_js :: "'a option list \<Rightarrow> nat \<Rightarrow> 'a option" where
  "nth_js xs i = (if i < length xs then xs ! i else None)"

definition arr_set :: "'a option list \<Rightarrow> nat \<Rightarrow> 'a option \<Rightarrow> 'a option list" where
  "arr_set xs i v =
     (if i < length xs then xs[i := v] else xs @ replicate (i - length xs) None @ [v])"

definition axis :: "gamepad \<Rightarrow> nat \<Rightarrow> real option" where
  "axis gp i = (if i < length (pad_axes gp) then Some (pad_axes gp ! i) else None)"

definition threshold :: real where
  "threshold = 0.5"

text \<open>The vector \<open>newState\<close> of \<open>SQInput.originalUpdateGamepadState\<close> (lines 992-1012).\<close>

definition newState :: "gamepad \<Rightarrow> bool option list" where
  "newState gp =
     (let n0 = arr_set (arr_set (arr_set (arr_set [] 12 (Some False)) 13 (Some False))
                 14 (Some False)) 15 (Some False);
          n1 = fold (\<lambda>i st. arr_set st i (Some (pad_buttons gp ! i)))
                 [0..<length (pad_buttons gp)] n0;
          n2 = (case axis gp 1 of
                  None \<Rightarrow> n1
                | Some y \<Rightarrow> if y < - threshold then arr_set n1 12 (Some True)
                            else if y > threshold then arr_set n1 13 (Some True) else n1)
      in case axis gp 0 of
           None \<Rightarrow> n2
         | Some x \<Rightarrow> if x < - threshold then arr_set n2 14 (Some True)
                     else if x > threshold then arr_set n2 15 (Some True) else n2)"

text \<open>Lines 1013-1022: every index whose value changed writes the names mapped to it.\<close>

definition set_names :: "string list \<Rightarrow> bool option \<Rightarrow> (string \<times> bool option) list \<Rightarrow> (string \<times> bool option) list" where
  "set_names buttonNames v cs = fold (\<lambda>b m. AList.update b v m) buttonNames cs"

definition transition_step ::
  "(string \<times> string list) list \<Rightarrow> bool option list \<Rightarrow> bool option list \<Rightarrow> nat \<Rightarrow>
   (string \<times> bool option) list \<Rightarrow> (string \<times> bool option) list" where
  "transition_step gm lastState ns j cs =
     (if nth_js ns j \<noteq> nth_js lastState j
      then (case map_of gm (show_nat j) of
              None \<Rightarrow> cs
            | Some buttonNames \<Rightarrow> set_names buttonNames (nth_js ns j) cs)
      else cs)"

definition apply_transitions ::
  "(string \<times> string list) list \<Rightarrow> bool option list \<Rightarrow> bool option list \<Rightarrow>
   (string \<times> bool option) list \<Rightarrow> (string \<times> bool option) list" where
  "apply_transitions gm lastState ns cs = fold (transition_step gm lastState ns) [0..<length ns] cs"

definition stateOf :: "sq_state \<Rightarrow> nat \<Rightarrow> bool option list" where
  "stateOf s i = (case map_of (gamepadStates s) i of None \<Rightarrow> [] | Some st \<Rightarrow> st)"

definition originalUpdateGamepadState :: "gamepad \<Rightarrow> sq_state \<Rightarrow> sq_state" where
  "originalUpdateGamepadState gp s =
     s\<lparr>currentState :=
          apply_transitions (gamepadMapper s) (stateOf s (pad_index gp)) (newState gp) (currentState s),
        gamepadStates := AList.update (pad_index gp) (newState gp) (gamepadStates s)\<rparr>"

text \<open>
  The loop of \<open>Input._updateGamepadState\<close> (lines 1046-1051), from index \<open>i\<close> on: it runs
  over the indices of the previous state and stops at the first difference.
\<close>

fun find_transition :: "bool option list \<Rightarrow> bool option list \<Rightarrow> nat \<Rightarrow> (nat \<times> edge) option" where
  "find_transition [] ns i = None"
| "find_transition (x # originalState) ns i =
     (if x \<noteq> nth_js ns i then Some (i, if nth_js ns i = Some True then Press else Release)
      else find_transition originalState ns (Suc i))"

text \<open>\<open>Input._updateGamepadState\<close> (lines 1033-1052).\<close>

definition updateGamepadState ::
  "externals \<Rightarrow> gamepad option list \<Rightarrow> gamepad \<Rightarrow> sq_state \<Rightarrow>
   error + (sq_state \<times> (gp_callback \<times> nat \<times> edge) list)" where
  "updateGamepadState ext allGamepads gp s =
     (let originalState = stateOf s (pad_index gp);
          s1 = (if activeGamepadIndex s = None then updateActiveGamepad allGamepads s else s);
          s2 = (if Some (pad_index gp) = activeGamepadIndex s1
                then originalUpdateGamepadState gp s1 else s1)
      in case find_transition originalState (stateOf s2 (pad_index gp)) 0 of
           None \<Rightarrow> Inr (s2, [])
         | Some (i, ty) \<Rightarrow> nextGamepadInputHandler ext allGamepads i ty s2)"

text \<open>
  Modelled from the spec: \<open>Input._pollGamepads\<close> is the engine's and is not in the
  plugin's files. The gamepads are polled once per frame (section 4.2): every connected
  gamepad of \<open>navigator.getGamepads()\<close> is passed to \<open>_updateGamepadState\<close>, in order,
  and that function reads the active one only.
\<close>

fun pollGamepads ::
  "externals \<Rightarrow> gamepad option list \<Rightarrow> gamepad option list \<Rightarrow> sq_state \<Rightarrow>
   error + (sq_state \<times> (gp_callback \<times> nat \<times> edge) list)" where
  "pollGamepads ext allGamepads [] s = Inr (s, [])"
| "pollGamepads ext allGamepads (g # rest) s =
     (case g of
        None \<Rightarrow> pollGamepads ext allGamepads rest s
      | Some gp \<Rightarrow>
          if pad_connected gp
          then err_bind (updateGamepadState ext allGamepads gp s)
                 (\<lambda>(s1, calls1). err_bind (pollGamepads ext allGamepads rest s1)
                    (\<lambda>(s2, calls2). Inr (s2, calls1 @ calls2)))
          else pollGamepads ext allGamepads rest s)"

section \<open>Keyboard events\<close>

definition event_key :: "key_event \<Rightarrow> string" where
  "event_key event = (if ev_code event \<noteq> [] then ev_code event else show_nat (ev_which event))"

text \<open>\<open>Input._onKeyDown\<close> (lines 1102-1116) and \<open>Input._onKeyUp\<close> (lines 1119-1126).\<close>

definition onKeyDown :: "key_event \<Rightarrow> sq_state \<Rightarrow> sq_state" where
  "onKeyDown event s =
     (let s1 = (if ev_keyCode event = 144 then clear s else s)
      in case map_of (keyMapper s1) (event_key event) of
           None \<Rightarrow> s1
         | Some buttonNames \<Rightarrow> s1\<lparr>currentState := set_names buttonNames (Some True) (currentState s1)\<rparr>)"

definition onKeyUp :: "key_event \<Rightarrow> sq_state \<Rightarrow> sq_state" where
  "onKeyUp event s =
     (case map_of (keyMapper s) (event_key event) of
        None \<Rightarrow> s
      | Some buttonNames \<Rightarrow> s\<lparr>currentState := set_names buttonNames (Some False) (currentState s)\<rparr>)"

text \<open>
  A key-down event of the document reaches both listeners: the engine registers
  \<open>Input._onKeyDown\<close> in its own initialisation, \<open>SQInput.initialize\<close> adds
  \<open>nextKeyboardInputHandler\<close> after it (line 507).
\<close>

definition keydown ::
  "externals \<Rightarrow> key_event \<Rightarrow> sq_state \<Rightarrow> error + (sq_state \<times> (kb_callback \<times> key_event) list)" where
  "keydown ext event s = nextKeyboardInputHandler ext event (onKeyDown event s)"

section \<open>Queries and the frame update\<close>

text \<open>
  Modelled from the spec: \<open>Input.isPressed\<close> is a query of the engine and is not in the
  plugin's files. It is the spec's \<open>isHeld\<close> (section 4.3): the name is held now, which
  is what the plugin's help text says of \<open>Input.isPressed\<close>.
\<close>

definition isPressed :: "sq_state \<Rightarrow> string \<Rightarrow> bool" where
  "isPressed s keyName = truthy (currentState s) keyName"

text \<open>
  Modelled from the spec: the constants \<open>Input.keyRepeatWait\<close> and
  \<open>Input.keyRepeatInterval\<close> are the engine's and are not in the plugin's files. The
  spec gives the delay 24 and the interval 6 (section 8); the plugin's help text gives
  the 24 frames.
\<close>

definition keyRepeatWait :: nat where
  "keyRepeatWait = 24"

definition keyRepeatInterval :: nat where
  "keyRepeatInterval = 6"

text \<open>\<open>this._latestButton.contains(keyName)\<close> throws when \<open>_latestButton\<close> is \<open>null\<close>.\<close>

definition latest_contains :: "sq_state \<Rightarrow> string \<Rightarrow> error + bool" where
  "latest_contains s keyName =
     (case latestButton s of None \<Rightarrow> Inl TypeError | Some l \<Rightarrow> Inr (keyName \<in> set l))"

text \<open>
  \<open>Input.isTriggered\<close> (lines 1196-1202). The engine's \<open>Input._isEscapeCompatible\<close> is
  not in the plugin's files and is the parameter \<open>esc\<close>. The query calls itself for the
  name \<open>escape\<close>; where that name is escape-compatible itself the calls never end, and
  the result is \<open>None\<close>.
\<close>

definition triggered_now :: "sq_state \<Rightarrow> string \<Rightarrow> error + bool" where
  "triggered_now s keyName =
     err_bind (latest_contains s keyName) (\<lambda>c. Inr (c \<and> pressedTime s = 0))"

partial_function (option) isTriggered ::
  "(string \<Rightarrow> bool) \<Rightarrow> sq_state \<Rightarrow> string \<Rightarrow> (error + bool) option" where
  "isTriggered esc s keyName =
     (if esc keyName
      then Option.bind (isTriggered esc s ''escape'')
             (\<lambda>r. case r of
                    Inl e \<Rightarrow> Some (Inl e)
                  | Inr t \<Rightarrow> if t then Some (Inr True) else Some (triggered_now s keyName))
      else Some (triggered_now s keyName))"

text \<open>\<open>Input.isRepeated\<close> (lines 1205-1216).\<close>

definition repeat_pulse :: "sq_state \<Rightarrow> bool" where
  "repeat_pulse s =
     (pressedTime s = 0 \<or>
      (pressedTime s \<ge> keyRepeatWait \<and> pressedTime s mod keyRepeatInterval = 0))"

definition repeated_now :: "sq_state \<Rightarrow> string \<Rightarrow> error + bool" where
  "repeated_now s keyName =
     err_bind (latest_contains s keyName) (\<lambda>c. Inr (c \<and> repeat_pulse s))"

partial_function (option) isRepeated ::
  "(string \<Rightarrow> bool) \<Rightarrow> sq_state \<Rightarrow> string \<Rightarrow> (error + bool) option" where
  "isRepeated esc s keyName =
     (if esc keyName
      then Option.bind (isRepeated esc s ''escape'')
             (\<lambda>r. case r of
                    Inl e \<Rightarrow> Some (Inl e)
                  | Inr t \<Rightarrow> if t then Some (Inr True) else Some (repeated_now s keyName))
      else Some (repeated_now s keyName))"

text \<open>
  The escape-compatible names of the examples: the engine asks \<open>cancel\<close> and \<open>menu\<close> to
  follow the name \<open>escape\<close>.
\<close>

definition example_esc :: "string \<Rightarrow> bool" where
  "example_esc keyName = (keyName = ''cancel'' \<or> keyName = ''menu'')"

text \<open>\<open>SQInput.isVeryLongPressed\<close> (lines 822-827).\<close>

definition isVeryLongPressed :: "sq_state \<Rightarrow> string \<Rightarrow> bool" where
  "isVeryLongPressed s keyName = (isPressed s keyName \<and> pressedTime s \<ge> 300)"

text \<open>
  The loop of \<open>Input.update\<close> over the names of \<open>_currentState\<close> (lines 1071-1078): a name
  that is held now and was not held in the previous frame joins \<open>_latestButton\<close> and
  restarts the count.
\<close>

definition press_step ::
  "string \<times> bool option \<Rightarrow> string list \<times> nat \<times> (string \<times> bool option) list \<Rightarrow>
   string list \<times> nat \<times> (string \<times> bool option) list" where
  "press_step p acc =
     (case p of (name, v) \<Rightarrow> case acc of (latest, pt, prev) \<Rightarrow>
        (if v = Some True \<and> \<not> truthy prev name then (latest @ [name], 0, AList.update name v prev)
         else (latest, pt, AList.update name v prev)))"

text \<open>
  \<open>Input.update\<close> (lines 1058-1097), in its three parts: the poll of the gamepads, the
  bookkeeping of the latest buttons and the pressed time (lines 1061-1083), and the
  failsafe reset (lines 1086-1096). The engine's \<open>_updateDirection\<close> writes only fields
  that are left out here. \<open>allGamepads\<close> is \<open>navigator.getGamepads()\<close> in this frame.
\<close>

definition track_presses :: "sq_state \<Rightarrow> sq_state" where
  "track_presses s1 =
     (let latest0 = (case latestButton s1 of None \<Rightarrow> [] | Some l \<Rightarrow> l);
          held = (latest0 \<noteq> [] \<and> truthy (currentState s1) (hd latest0));
          latest1 = (if held then latest0 else []);
          pt1 = (if held then Suc (pressedTime s1) else pressedTime s1);
          acc = fold press_step (currentState s1) (latest1, pt1, previousState s1);
          latest2 = fst acc;
          pt2 = fst (snd acc);
          virt = (case virtualButton s1 of None \<Rightarrow> False | Some v \<Rightarrow> v \<noteq> [])
      in s1\<lparr>latestButton := Some (if virt then [the (virtualButton s1)] else latest2),
             pressedTime := (if virt then 0 else pt2),
             previousState := snd (snd acc),
             virtualButton := (if virt then None else virtualButton s1)\<rparr>)"

definition failsafe_reset :: "sq_state \<Rightarrow> error + sq_state" where
  "failsafe_reset s2 =
     (let longPressEscape = (isVeryLongPressed s2 ''escape'' \<or> isVeryLongPressed s2 ''static_escape'');
          longPressTab = (isVeryLongPressed s2 ''tab'' \<or> isVeryLongPressed s2 ''static_tab'')
      in if longPressEscape \<and> longPressTab \<and> \<not> resetMapFlag s2
         then err_bind (resetMap s2) (\<lambda>s3. Inr (s3\<lparr>resetMapFlag := True\<rparr>))
         else if \<not> longPressEscape \<or> \<not> longPressTab then Inr (s2\<lparr>resetMapFlag := False\<rparr>)
         else Inr s2)"

definition input_update ::
  "externals \<Rightarrow> gamepad option list \<Rightarrow> sq_state \<Rightarrow>
   error + (sq_state \<times> (gp_callback \<times> nat \<times> edge) list)" where
  "input_update ext allGamepads s =
     err_bind (pollGamepads ext allGamepads allGamepads s) (\<lambda>(s1, calls).
       err_bind (failsafe_reset (track_presses s1)) (\<lambda>s3. Inr (s3, calls)))"

section \<open>Sequences of calls and events\<close>

text \<open>A sequence of calls \<open>setControlButton(control, value, slot)\<close>.\<close>

fun rebinds :: "(string \<times> jsval \<times> slot) list \<Rightarrow> sq_state \<Rightarrow> error + sq_state" where
  "rebinds [] s = Inr s"
| "rebinds ((c, v, ty) # cs) s = err_bind (setControlButton c v ty s) (rebinds cs)"

text \<open>
  What can happen to the input system while no capture is armed: key events, frames with
  the gamepads connected in that frame, rebinds and resets.
\<close>

datatype event =
    KeyDown key_event
  | KeyUp key_event
  | Frame "gamepad option list"
  | Rebind string jsval slot
  | ResetAll

fun step :: "externals \<Rightarrow> event \<Rightarrow> sq_state \<Rightarrow> error + sq_state" where
  "step ext (KeyDown e) s = err_bind (keydown ext e s) (\<lambda>(s', calls). Inr s')"
| "step ext (KeyUp e) s = Inr (onKeyUp e s)"
| "step ext (Frame allGamepads) s = err_bind (input_update ext allGamepads s) (\<lambda>(s', calls). Inr s')"
| "step ext (Rebind c v ty) s = setControlButton c v ty s"
| "step ext ResetAll s = resetMap s"

fun run :: "externals \<Rightarrow> event list \<Rightarrow> sq_state \<Rightarrow> error + sq_state" where
  "run ext [] s = Inr s"
| "run ext (e # es) s = err_bind (step ext e s) (run ext es)"

text \<open>\<open>n\<close> frames in a row with no gamepad connected.\<close>

fun hold_frames :: "externals \<Rightarrow> nat \<Rightarrow> sq_state \<Rightarrow> error + sq_state" where
  "hold_frames ext 0 s = Inr s"
| "hold_frames ext (Suc n) s = err_bind (input_update ext [] s) (\<lambda>(s', calls). hold_frames ext n s')"

text \<open>External handlers that do nothing.\<close>

definition idle_externals :: externals where
  "idle_externals = \<lparr>ext_keyboard = (\<lambda>n e s. Inr s), ext_gamepad = (\<lambda>n i ty s. Inr s)\<rparr>"

text \<open>
  A gamepad at index 0 with the given buttons and centred sticks, and the state after the
  first frame in which it is polled with no button pressed.
\<close>

definition example_pad :: "bool list \<Rightarrow> gamepad" where
  "example_pad bs =
     \<lparr>pad_index = 0, pad_id = ''pad'', pad_connected = True, pad_buttons = bs,
      pad_axes = [0, 0, 0, 0]\<rparr>"

definition polled_state :: sq_state where
  "polled_state =
     fst (projr (updateGamepadState idle_externals [Some (example_pad (replicate 16 False))]
                   (example_pad (replicate 16 False)) (projr initial_state)))"

section \<open>Properties of the binding table\<close>

text \<open>No two entries of the table hold the same value in the slot.\<close>

definition injective :: "slot \<Rightarrow> table \<Rightarrow> bool" where
  "injective ty t = distinct (map (\<lambda>(i, input). slot_get ty input) t)"

text \<open>The table has the functions of the default table, in their order.\<close>

definition keys_ok :: "table \<Rightarrow> bool" where
  "keys_ok t = (map fst t = map fst default_inputs)"

text \<open>
  The names that the lookup maps add to the keys of the table: the static names and the
  names the engine asks for (lines 561-576 and 600-603).
\<close>

definition alias_names :: "string list" where
  "alias_names =
     [''static_tab'', ''static_escape'', ''cancel'', ''confirm'', ''ok'', ''shift'', ''pageup'',
      ''pagedown'']"

definition bound_names :: "string set" where
  "bound_names = set (map fst default_inputs) \<union> set alias_names"

text \<open>Every name a lookup map gives is one of the names in \<open>K\<close>.\<close>

definition names_within :: "string set \<Rightarrow> (string \<times> string list) list \<Rightarrow> bool" where
  "names_within K m = (\<forall>(k, ns) \<in> set m. set ns \<subseteq> K)"

text \<open>
  What holds of every state reached from the initial state by events while no capture is
  armed: the table has the default functions, the lookup maps and the held names stay
  within the bound names, and nothing is armed or pending.
\<close>

definition unarmed_inv :: "sq_state \<Rightarrow> bool" where
  "unarmed_inv s =
     (keys_ok (inputs s) \<and> names_within bound_names (keyMapper s) \<and>
      names_within bound_names (gamepadMapper s) \<and>
      distinct (map fst (currentState s)) \<and>
      (\<forall>n. truthy (currentState s) n \<longrightarrow> n \<in> bound_names) \<and>
      (\<forall>l. latestButton s = Some l \<longrightarrow> set l \<subseteq> bound_names) \<and>
      virtualButton s = None \<and> keyboardInputCallback s = None \<and>
      gamepadInputCallback s = None)"

section \<open>Rebinding keeps the table injective\<close>

lemma default_keys: "map fst default_inputs =
  [''up'', ''down'', ''left'', ''right'', ''cancel'', ''confirm'', ''menu'', ''dash'', ''cycle_right'', ''cycle_left'']"
  by (simp add: default_inputs_def mk_control_def)

lemma keys_ok_distinct: "keys_ok t \<Longrightarrow> distinct (map fst t)"
  by (simp add: keys_ok_def default_keys)

lemma keys_ok_nonempty: "keys_ok t \<Longrightarrow> (d, x) \<in> set t \<Longrightarrow> d \<noteq> []"
proof -
  assume k: "keys_ok t" and m: "(d, x) \<in> set t"
  from m have "d \<in> set (map fst t)" by force
  with k show ?thesis by (auto simp: keys_ok_def default_keys)
qed

lemma map_fst_map_entry: "map fst (AList.map_entry k f t) = map fst t"
  by (induction t) auto

lemma map_fst_rebind_table: "map fst (rebind_table c v ty cur t) = map fst t"
  by (simp add: rebind_table_def Let_def map_fst_map_entry split: option.splits)

lemma the_input_ok: "k \<in> set (map fst t) \<Longrightarrow> \<exists>c. the_input t k = Inr c"
  by (cases "map_of t k") (auto simp: the_input_def map_of_eq_None_iff)

lemma newKeyboardMap_ok: "keys_ok t \<Longrightarrow> \<exists>m. newKeyboardMap t = Inr m"
proof -
  assume k: "keys_ok t"
  have a: "\<exists>c. the_input t ''cancel'' = Inr c" "\<exists>c. the_input t ''confirm'' = Inr c"
    "\<exists>c. the_input t ''dash'' = Inr c" "\<exists>c. the_input t ''cycle_left'' = Inr c"
    "\<exists>c. the_input t ''cycle_right'' = Inr c"
    using k by (auto intro!: the_input_ok simp: keys_ok_def default_keys)
  then show ?thesis by (auto simp: newKeyboardMap_def err_bind_def Let_def)
qed

lemma newGamepadMap_ok: "keys_ok t \<Longrightarrow> \<exists>m. newGamepadMap t = Inr m"
proof -
  assume k: "keys_ok t"
  have a: "\<exists>c. the_input t ''cancel'' = Inr c" "\<exists>c. the_input t ''confirm'' = Inr c"
    "\<exists>c. the_input t ''dash'' = Inr c"
    using k by (auto intro!: the_input_ok simp: keys_ok_def default_keys)
  then show ?thesis by (auto simp: newGamepadMap_def err_bind_def Let_def)
qed

lemma rebuild_ok:
  assumes "keys_ok (inputs s)"
  shows "\<exists>km gm. rebuildButtonMapper s = Inr (clear (s\<lparr>keyMapper := km, gamepadMapper := gm\<rparr>))"
proof -
  obtain km where km: "newKeyboardMap (inputs s) = Inr km" using newKeyboardMap_ok [OF assms] by blast
  obtain gm where gm: "newGamepadMap (inputs s) = Inr gm" using newGamepadMap_ok [OF assms] by blast
  have "rebuildButtonMapper s = Inr (clear (s\<lparr>keyMapper := km, gamepadMapper := gm\<rparr>))"
    by (simp add: rebuildButtonMapper_def err_bind_def km gm)
  then show ?thesis by blast
qed

lemma inputs_clear [simp]: "inputs (clear s) = inputs s"
  by (simp add: clear_def Let_def)

lemma rebuild_inputs:
  "keys_ok (inputs s) \<Longrightarrow> \<exists>s'. rebuildButtonMapper s = Inr s' \<and> inputs s' = inputs s"
  using rebuild_ok [of s] by auto

lemma injective_iff:
  assumes d: "distinct (map fst t)"
  shows "injective ty t \<longleftrightarrow>
    (\<forall>f g a b. f \<noteq> g \<longrightarrow> map_of t f = Some a \<longrightarrow> map_of t g = Some b \<longrightarrow> slot_get ty a \<noteq> slot_get ty b)"
proof -
  have dt: "distinct t" using d by (rule distinct_map [THEN iffD1, THEN conjunct1])
  have "injective ty t \<longleftrightarrow> inj_on (\<lambda>(i, input). slot_get ty input) (set t)"
    by (simp add: injective_def distinct_map dt)
  also have "\<dots> \<longleftrightarrow> (\<forall>f g a b. f \<noteq> g \<longrightarrow> (f, a) \<in> set t \<longrightarrow> (g, b) \<in> set t \<longrightarrow> slot_get ty a \<noteq> slot_get ty b)"
  proof
    assume i: "inj_on (\<lambda>(i, input). slot_get ty input) (set t)"
    show "\<forall>f g a b. f \<noteq> g \<longrightarrow> (f, a) \<in> set t \<longrightarrow> (g, b) \<in> set t \<longrightarrow> slot_get ty a \<noteq> slot_get ty b"
    proof (intro allI impI)
      fix f g a b
      assume "f \<noteq> g" "(f, a) \<in> set t" "(g, b) \<in> set t"
      with i show "slot_get ty a \<noteq> slot_get ty b" by (auto simp: inj_on_def)
    qed
  next
    assume r: "\<forall>f g a b. f \<noteq> g \<longrightarrow> (f, a) \<in> set t \<longrightarrow> (g, b) \<in> set t \<longrightarrow> slot_get ty a \<noteq> slot_get ty b"
    show "inj_on (\<lambda>(i, input). slot_get ty input) (set t)"
    proof (rule inj_onI)
      fix x y
      assume x: "x \<in> set t" and y: "y \<in> set t"
        and e: "(case x of (i, input) \<Rightarrow> slot_get ty input) = (case y of (i, input) \<Rightarrow> slot_get ty input)"
      obtain f a where xf: "x = (f, a)" by (cases x)
      obtain g b where yg: "y = (g, b)" by (cases y)
      from e xf yg have eq: "slot_get ty a = slot_get ty b" by simp
      with r x y xf yg have "f = g" by blast
      moreover from d x y xf yg have "f = g \<Longrightarrow> a = b"
        by (metis map_of_eq_Some_iff option.inject)
      ultimately show "x = y" using xf yg by simp
    qed
  qed
  finally show ?thesis using d by simp
qed

lemma dup_None:
  "duplicateFunction ty v c t = None \<Longrightarrow> (i, x) \<in> set t \<Longrightarrow> i \<noteq> c \<Longrightarrow> slot_get ty x \<noteq> v"
  by (induction t) (auto split: if_splits)

lemma dup_Some:
  "duplicateFunction ty v c t = Some d \<Longrightarrow> d \<noteq> c \<and> (\<exists>x. (d, x) \<in> set t \<and> slot_get ty x = v)"
  by (induction t) (auto split: if_splits)

lemma slot_get_set: "slot_get ty (slot_set ty' v x) = (if ty = ty' then v else slot_get ty x)"
  by (cases ty; cases ty') auto

lemma other_slot_map_entry:
  "ty' \<noteq> ty \<Longrightarrow>
   map (\<lambda>(i, input). slot_get ty' input) (AList.map_entry k (slot_set ty v) t) =
   map (\<lambda>(i, input). slot_get ty' input) t"
  by (induction t) (auto simp: slot_get_set)

lemma other_slot_rebind_table:
  "ty' \<noteq> ty \<Longrightarrow>
   map (\<lambda>(i, input). slot_get ty' input) (rebind_table c v ty cur t) =
   map (\<lambda>(i, input). slot_get ty' input) t"
  by (simp add: rebind_table_def Let_def other_slot_map_entry split: option.splits)

lemma rebind_injective:
  assumes k: "keys_ok t" and i: "injective ty' t" and c: "map_of t c = Some cur"
  shows "injective ty' (rebind_table c v ty cur t)"
proof (cases "ty' = ty")
  case False
  then show ?thesis using i by (simp add: injective_def other_slot_rebind_table)
next
  case True
  have d: "distinct (map fst t)" using k by (rule keys_ok_distinct)
  have P: "\<forall>f g a b. f \<noteq> g \<longrightarrow> map_of t f = Some a \<longrightarrow> map_of t g = Some b \<longrightarrow> slot_get ty a \<noteq> slot_get ty b"
    using i True injective_iff [OF d, of ty] by blast
  show ?thesis
  proof (cases "duplicateFunction ty v c t")
    case None
    have N: "\<forall>f a. map_of t f = Some a \<longrightarrow> f \<noteq> c \<longrightarrow> slot_get ty a \<noteq> v"
      using dup_None [OF None] d by (auto dest: map_of_SomeD)
    have rt: "rebind_table c v ty cur t = AList.map_entry c (slot_set ty v) t"
      by (simp add: rebind_table_def None)
    have "injective ty (AList.map_entry c (slot_set ty v) t)"
    proof (rule injective_iff [THEN iffD2])
      show "distinct (map fst (AList.map_entry c (slot_set ty v) t))"
        by (simp add: map_fst_map_entry d)
      show "\<forall>f g a b. f \<noteq> g \<longrightarrow> map_of (AList.map_entry c (slot_set ty v) t) f = Some a \<longrightarrow>
          map_of (AList.map_entry c (slot_set ty v) t) g = Some b \<longrightarrow> slot_get ty a \<noteq> slot_get ty b"
      proof (intro allI impI)
        fix f g a b
        assume fg: "f \<noteq> g"
          and fa: "map_of (AList.map_entry c (slot_set ty v) t) f = Some a"
          and gb: "map_of (AList.map_entry c (slot_set ty v) t) g = Some b"
        have fa': "(f = c \<and> slot_get ty a = v) \<or> (f \<noteq> c \<and> map_of t f = Some a)"
          using fa c by (auto simp: map_of_map_entry slot_get_set split: if_splits)
        have gb': "(g = c \<and> slot_get ty b = v) \<or> (g \<noteq> c \<and> map_of t g = Some b)"
          using gb c by (auto simp: map_of_map_entry slot_get_set split: if_splits)
        show "slot_get ty a \<noteq> slot_get ty b"
        proof (cases "f = c")
          case True
          with fg fa' gb' have av: "slot_get ty a = v" and gc: "g \<noteq> c" and mg: "map_of t g = Some b" by auto
          from N mg gc have "slot_get ty b \<noteq> v" by blast
          with av show ?thesis by simp
        next
          case False
          note fc = this
          with fa' have fa'': "map_of t f = Some a" by simp
          show ?thesis
          proof (cases "g = c")
            case True
            with gb' have bv: "slot_get ty b = v" by simp
            from N fa'' fc have "slot_get ty a \<noteq> v" by blast
            with bv show ?thesis by simp
          next
            case False
            with gb' have "map_of t g = Some b" by simp
            with P fg fa'' show ?thesis by blast
          qed
        qed
      qed
    qed
    then show ?thesis by (simp add: True rt)
  next
    case (Some dd)
    from dup_Some [OF Some] obtain x where dc: "dd \<noteq> c" and x: "(dd, x) \<in> set t" and xv: "slot_get ty x = v"
      by blast
    have ne: "dd \<noteq> []" using keys_ok_nonempty [OF k x] .
    have mx: "map_of t dd = Some x" using x d by simp
    let ?old = "slot_get ty cur"
    let ?t2 = "AList.map_entry c (slot_set ty v) (AList.map_entry dd (slot_set ty ?old) t)"
    have rt: "rebind_table c v ty cur t = ?t2"
      by (simp add: rebind_table_def Some ne)
    have U: "\<forall>f a. map_of t f = Some a \<longrightarrow> f \<noteq> dd \<longrightarrow> slot_get ty a \<noteq> v"
    proof (intro allI impI)
      fix f a assume "map_of t f = Some a" "f \<noteq> dd"
      then have "slot_get ty a \<noteq> slot_get ty x" using P [rule_format, of f dd a x] mx by simp
      then show "slot_get ty a \<noteq> v" by (simp add: xv)
    qed
    have V: "\<forall>f a. map_of t f = Some a \<longrightarrow> f \<noteq> c \<longrightarrow> slot_get ty a \<noteq> ?old"
    proof (intro allI impI)
      fix f a assume "map_of t f = Some a" "f \<noteq> c"
      then show "slot_get ty a \<noteq> slot_get ty cur" using P [rule_format, of f c a cur] c by simp
    qed
    have W: "?old \<noteq> v" using U [rule_format, of c cur] c dc by simp
    have "injective ty ?t2"
    proof (rule injective_iff [THEN iffD2])
      show "distinct (map fst ?t2)"
        by (simp add: map_fst_map_entry d)
      show "\<forall>f g a b. f \<noteq> g \<longrightarrow> map_of ?t2 f = Some a \<longrightarrow>
          map_of ?t2 g = Some b \<longrightarrow> slot_get ty a \<noteq> slot_get ty b"
      proof (intro allI impI)
        fix f g a b
        assume fg: "f \<noteq> g"
          and fa: "map_of ?t2 f = Some a"
          and gb: "map_of ?t2 g = Some b"
        have fa': "(f = c \<and> slot_get ty a = v) \<or> (f = dd \<and> slot_get ty a = ?old)
            \<or> (f \<noteq> c \<and> f \<noteq> dd \<and> map_of t f = Some a)"
          using fa c mx dc by (auto simp: map_of_map_entry slot_get_set split: if_splits)
        have gb': "(g = c \<and> slot_get ty b = v) \<or> (g = dd \<and> slot_get ty b = ?old)
            \<or> (g \<noteq> c \<and> g \<noteq> dd \<and> map_of t g = Some b)"
          using gb c mx dc by (auto simp: map_of_map_entry slot_get_set split: if_splits)
        have val: "\<And>h e. (h = c \<and> slot_get ty e = v) \<or> (h = dd \<and> slot_get ty e = ?old)
            \<or> (h \<noteq> c \<and> h \<noteq> dd \<and> map_of t h = Some e) \<Longrightarrow>
            (h \<noteq> c \<longrightarrow> slot_get ty e \<noteq> v) \<and> (h \<noteq> dd \<longrightarrow> slot_get ty e \<noteq> ?old)"
          using U V W dc by auto
        from val [OF fa'] val [OF gb'] have
          f1: "f \<noteq> c \<longrightarrow> slot_get ty a \<noteq> v" and f2: "f \<noteq> dd \<longrightarrow> slot_get ty a \<noteq> ?old" and
          g1: "g \<noteq> c \<longrightarrow> slot_get ty b \<noteq> v" and g2: "g \<noteq> dd \<longrightarrow> slot_get ty b \<noteq> ?old"
          by simp_all
        consider "f = c" | "f = dd" | "g = c" | "g = dd" | "f \<noteq> c \<and> f \<noteq> dd \<and> g \<noteq> c \<and> g \<noteq> dd"
          by blast
        then show "slot_get ty a \<noteq> slot_get ty b"
        proof cases
          case 1
          with fa' dc have "slot_get ty a = v" by auto
          moreover from 1 fg have "g \<noteq> c" by simp
          ultimately show ?thesis using g1 by simp
        next
          case 2
          with fa' dc have "slot_get ty a = ?old" by auto
          moreover from 2 fg have "g \<noteq> dd" by simp
          ultimately show ?thesis using g2 by simp
        next
          case 3
          with gb' dc have "slot_get ty b = v" by auto
          moreover from 3 fg have "f \<noteq> c" by simp
          ultimately show ?thesis using f1 by simp
        next
          case 4
          with gb' dc have "slot_get ty b = ?old" by auto
          moreover from 4 fg have "f \<noteq> dd" by simp
          ultimately show ?thesis using f2 by simp
        next
          case 5
          with fa' gb' have "map_of t f = Some a" "map_of t g = Some b" by auto
          with P fg show ?thesis by blast
        qed
      qed
    qed
    then show ?thesis by (simp add: True rt)
  qed
qed

lemma keys_ok_default: "keys_ok default_inputs"
  by (simp add: keys_ok_def)

lemma injective_default: "injective ty default_inputs"
  by (cases ty) (simp_all add: injective_def default_inputs_def mk_control_def)

lemma initial_ok: "\<exists>s0. initial_state = Inr s0 \<and> inputs s0 = default_inputs"
proof -
  have "keys_ok (inputs blank_state)" by (simp add: blank_state_def keys_ok_def)
  from rebuild_inputs [OF this] show ?thesis
    by (auto simp: initial_state_def blank_state_def)
qed

lemma setControlButton_inputs:
  assumes k: "keys_ok (inputs s)"
  shows "\<exists>s'. setControlButton c v ty s = Inr s' \<and>
     inputs s' = (case map_of (inputs s) c of None \<Rightarrow> inputs s
                  | Some cur \<Rightarrow> rebind_table c v ty cur (inputs s))"
proof (cases "map_of (inputs s) c")
  case None
  then show ?thesis by (simp add: setControlButton_def)
next
  case (Some cur)
  let ?s1 = "s\<lparr>inputs := rebind_table c v ty cur (inputs s)\<rparr>"
  have "keys_ok (inputs ?s1)" using k by (simp add: keys_ok_def map_fst_rebind_table)
  from rebuild_inputs [OF this] show ?thesis by (simp add: setControlButton_def Some)
qed

lemma setControlButton_inv:
  assumes k: "keys_ok (inputs s)"
    and i: "\<And>ty'. injective ty' (inputs s)"
  shows "\<exists>s'. setControlButton c v ty s = Inr s' \<and> keys_ok (inputs s') \<and>
     (\<forall>ty'. injective ty' (inputs s'))"
proof -
  from setControlButton_inputs [OF k, of c v ty] obtain s' where
    r: "setControlButton c v ty s = Inr s'" and
    t: "inputs s' = (case map_of (inputs s) c of None \<Rightarrow> inputs s
                  | Some cur \<Rightarrow> rebind_table c v ty cur (inputs s))" by blast
  have "keys_ok (inputs s')" using k t
    by (cases "map_of (inputs s) c") (simp_all add: keys_ok_def map_fst_rebind_table)
  moreover have "\<forall>ty'. injective ty' (inputs s')"
  proof (cases "map_of (inputs s) c")
    case None
    then show ?thesis using t i by simp
  next
    case (Some cur)
    then show ?thesis using t rebind_injective [OF k i Some] by simp
  qed
  ultimately show ?thesis using r by blast
qed

lemma rebinds_inv:
  "keys_ok (inputs s) \<Longrightarrow> (\<And>ty'. injective ty' (inputs s)) \<Longrightarrow>
   \<exists>s'. rebinds calls s = Inr s' \<and> keys_ok (inputs s') \<and> (\<forall>ty'. injective ty' (inputs s'))"
proof (induction calls arbitrary: s)
  case Nil
  then show ?case by simp
next
  case (Cons call calls)
  obtain c v ty where call: "call = (c, v, ty)" by (cases call)
  from setControlButton_inv [OF Cons.prems(1), of c v ty] Cons.prems(2) obtain s1 where
    r: "setControlButton c v ty s = Inr s1" and k1: "keys_ok (inputs s1)"
    and i1: "\<forall>ty'. injective ty' (inputs s1)" by blast
  from Cons.IH [OF k1] i1 obtain s' where
    "rebinds calls s1 = Inr s'" "keys_ok (inputs s')" "\<forall>ty'. injective ty' (inputs s')" by blast
  then show ?case by (auto simp: call r err_bind_def)
qed

lemma dup_unique:
  assumes k: "keys_ok t" and i: "injective ty t"
    and c: "map_of t c = Some cur" and d: "map_of t d = Some other" and dc: "d \<noteq> c"
  shows "duplicateFunction ty (slot_get ty other) c t = Some d"
proof (cases "duplicateFunction ty (slot_get ty other) c t")
  case None
  have "(d, other) \<in> set t" using d by (rule map_of_SomeD)
  from dup_None [OF None this dc] show ?thesis by simp
next
  case (Some d')
  from dup_Some [OF Some] obtain x where x: "(d', x) \<in> set t" and e: "slot_get ty x = slot_get ty other"
    by blast
  have dk: "distinct (map fst t)" using k by (rule keys_ok_distinct)
  have mx: "map_of t d' = Some x" using x dk by simp
  have "d' = d"
  proof (rule ccontr)
    assume "d' \<noteq> d"
    with i [unfolded injective_iff [OF dk], rule_format, of d' d x other] mx d e show False by simp
  qed
  then show ?thesis using Some by simp
qed

lemma rebind_swap:
  assumes k: "keys_ok t" and i: "injective ty t"
    and c: "map_of t c = Some cur" and d: "map_of t d = Some other" and dc: "d \<noteq> c"
  shows "map_of (rebind_table c (slot_get ty other) ty cur t) d = Some (slot_set ty (slot_get ty cur) other)"
    and "map_of (rebind_table c (slot_get ty other) ty cur t) c = Some (slot_set ty (slot_get ty other) cur)"
proof -
  have ne: "d \<noteq> []" using keys_ok_nonempty [OF k map_of_SomeD [OF d]] .
  have rt: "rebind_table c (slot_get ty other) ty cur t =
      AList.map_entry c (slot_set ty (slot_get ty other)) (AList.map_entry d (slot_set ty (slot_get ty cur)) t)"
    by (simp add: rebind_table_def dup_unique [OF k i c d dc] ne)
  show "map_of (rebind_table c (slot_get ty other) ty cur t) d = Some (slot_set ty (slot_get ty cur) other)"
    using c d dc by (simp add: rt map_of_map_entry)
  show "map_of (rebind_table c (slot_get ty other) ty cur t) c = Some (slot_set ty (slot_get ty other) cur)"
    using c d dc by (simp add: rt map_of_map_entry)
qed

text \<open>
  Claim C1. From the default table, every sequence of calls of \<open>setControlButton\<close> returns
  normally, and in the table it leaves no two different functions hold the same value in
  the same slot. In that table, a rebind of \<open>c\<close> to the value another function \<open>d\<close>
  holds in the slot gives \<open>d\<close> the old value of \<open>c\<close> and \<open>c\<close> the new value (a swap).
\<close>

theorem rebind_keeps_slots_injective:
  "\<exists>s0 s. initial_state = Inr s0 \<and> rebinds calls s0 = Inr s \<and>
     (\<forall>ty f g a b. f \<noteq> g \<longrightarrow> map_of (inputs s) f = Some a \<longrightarrow> map_of (inputs s) g = Some b \<longrightarrow>
        slot_get ty a \<noteq> slot_get ty b) \<and>
     (\<forall>ty c d cur other. map_of (inputs s) c = Some cur \<longrightarrow> map_of (inputs s) d = Some other \<longrightarrow>
        d \<noteq> c \<longrightarrow>
        (\<exists>s'. setControlButton c (slot_get ty other) ty s = Inr s' \<and>
           map_option (slot_get ty) (map_of (inputs s') d) = Some (slot_get ty cur) \<and>
           map_option (slot_get ty) (map_of (inputs s') c) = Some (slot_get ty other)))"
proof -
  from initial_ok obtain s0 where s0: "initial_state = Inr s0" and t0: "inputs s0 = default_inputs"
    by blast
  have k0: "keys_ok (inputs s0)" by (simp add: t0 keys_ok_default)
  have i0: "\<And>ty'. injective ty' (inputs s0)" by (simp add: t0 injective_default)
  from rebinds_inv [OF k0 i0, of calls] obtain s where
    r: "rebinds calls s0 = Inr s" and k: "keys_ok (inputs s)"
    and i: "\<forall>ty'. injective ty' (inputs s)" by blast
  have dk: "distinct (map fst (inputs s))" using k by (rule keys_ok_distinct)
  have inj: "\<forall>ty f g a b. f \<noteq> g \<longrightarrow> map_of (inputs s) f = Some a \<longrightarrow> map_of (inputs s) g = Some b \<longrightarrow>
        slot_get ty a \<noteq> slot_get ty b"
    using i injective_iff [OF dk] by simp
  have swap: "\<forall>ty c d cur other. map_of (inputs s) c = Some cur \<longrightarrow> map_of (inputs s) d = Some other \<longrightarrow>
        d \<noteq> c \<longrightarrow>
        (\<exists>s'. setControlButton c (slot_get ty other) ty s = Inr s' \<and>
           map_option (slot_get ty) (map_of (inputs s') d) = Some (slot_get ty cur) \<and>
           map_option (slot_get ty) (map_of (inputs s') c) = Some (slot_get ty other))"
  proof (intro allI impI)
    fix ty c d cur other
    assume c: "map_of (inputs s) c = Some cur" and d: "map_of (inputs s) d = Some other" and dc: "d \<noteq> c"
    from setControlButton_inputs [OF k, of c "slot_get ty other" ty] c obtain s' where
      r': "setControlButton c (slot_get ty other) ty s = Inr s'"
      and t': "inputs s' = rebind_table c (slot_get ty other) ty cur (inputs s)" by auto
    have ity: "injective ty (inputs s)" using i by simp
    from rebind_swap [OF k ity c d dc] t'
    have "map_option (slot_get ty) (map_of (inputs s') d) = Some (slot_get ty cur)"
      "map_option (slot_get ty) (map_of (inputs s') c) = Some (slot_get ty other)"
      by (simp_all add: slot_get_set)
    with r' show "\<exists>s'. setControlButton c (slot_get ty other) ty s = Inr s' \<and>
           map_option (slot_get ty) (map_of (inputs s') d) = Some (slot_get ty cur) \<and>
           map_option (slot_get ty) (map_of (inputs s') c) = Some (slot_get ty other)" by blast
  qed
  from s0 r inj swap show ?thesis by blast
qed

lemma default_lookup:
  "map_of default_inputs ''cancel'' = Some (snd (mk_control ''cancel'' ''cancel'' ''Cancel'' ''KeyX'' 1))"
  "map_of default_inputs ''confirm'' = Some (snd (mk_control ''confirm'' ''confirm'' ''Confirm'' ''KeyZ'' 0))"
  by (simp_all add: default_inputs_def mk_control_def)

text \<open>
  The swap at the default table: \<open>cancel\<close> (button 1) is rebound to button 0, which
  \<open>confirm\<close> holds.
\<close>

theorem rebind_keeps_slots_injective_witness:
  "\<exists>s0 s'. initial_state = Inr s0 \<and>
     map_option gamepadButton (map_of (inputs s0) ''cancel'') = Some (Num 1) \<and>
     map_option gamepadButton (map_of (inputs s0) ''confirm'') = Some (Num 0) \<and>
     ''confirm'' \<noteq> ''cancel'' \<and>
     setControlButton ''cancel'' (Num 0) GamepadButton s0 = Inr s' \<and>
     map_option gamepadButton (map_of (inputs s') ''confirm'') = Some (Num 1) \<and>
     map_option gamepadButton (map_of (inputs s') ''cancel'') = Some (Num 0)"
proof -
  from rebind_keeps_slots_injective [of "[]"] obtain s0 where
    s0: "initial_state = Inr s0"
    and sw: "\<forall>ty c d cur other. map_of (inputs s0) c = Some cur \<longrightarrow> map_of (inputs s0) d = Some other \<longrightarrow>
        d \<noteq> c \<longrightarrow>
        (\<exists>s'. setControlButton c (slot_get ty other) ty s0 = Inr s' \<and>
           map_option (slot_get ty) (map_of (inputs s') d) = Some (slot_get ty cur) \<and>
           map_option (slot_get ty) (map_of (inputs s') c) = Some (slot_get ty other))"
    by auto
  from initial_ok obtain s1 where s1: "initial_state = Inr s1" "inputs s1 = default_inputs" by blast
  from s0 s1 have "s1 = s0" by (metis Inr_inject)
  with s1 have t0: "inputs s0 = default_inputs" by simp
  let ?cancel = "snd (mk_control ''cancel'' ''cancel'' ''Cancel'' ''KeyX'' 1)"
  let ?confirm = "snd (mk_control ''confirm'' ''confirm'' ''Confirm'' ''KeyZ'' 0)"
  from sw [rule_format, of "''cancel''" ?cancel "''confirm''" ?confirm GamepadButton]
  obtain s' where "setControlButton ''cancel'' (Num 0) GamepadButton s0 = Inr s'"
    "map_option gamepadButton (map_of (inputs s') ''confirm'') = Some (Num 1)"
    "map_option gamepadButton (map_of (inputs s') ''cancel'') = Some (Num 0)"
    by (auto simp: t0 default_lookup mk_control_def)
  with s0 show ?thesis by (auto simp: t0 default_lookup mk_control_def)
qed

section \<open>Ordinal lookup outside the table\<close>

text \<open>
  Claim C8, as the code has it. \<open>getInputByIndex\<close> never fails: for an index outside
  the table (negative, or at least the number of functions) it returns \<open>undefined\<close>,
  provided no function is named \<open>undefined\<close>; for an index below the number of
  functions it returns the function at that position of the insertion order.
\<close>

theorem getInputByIndex_returns:
  assumes "distinct (map fst t)" and "''undefined'' \<notin> fst ` set t"
  shows "(index < 0 \<or> int (length t) \<le> index \<longrightarrow> getInputByIndex t index = Inr None) \<and>
         (0 \<le> index \<and> index < int (length t) \<longrightarrow>
            getInputByIndex t index = Inr (Some (snd (t ! nat index))))"
proof -
  have u: "map_of t ''undefined'' = None"
    using assms(2) by (simp add: map_of_eq_None_iff)
  have "0 \<le> index \<Longrightarrow> index < int (length t) \<Longrightarrow> map_of t (map fst t ! nat index) = Some (snd (t ! nat index))"
  proof -
    assume "0 \<le> index" "index < int (length t)"
    then have l: "nat index < length t" by simp
    then have "t ! nat index \<in> set t" by simp
    then have "(fst (t ! nat index), snd (t ! nat index)) \<in> set t" by simp
    then have "map_of t (fst (t ! nat index)) = Some (snd (t ! nat index))"
      using assms(1) by (simp only: map_of_eq_Some_iff)
    then show ?thesis using l by simp
  qed
  then show ?thesis using u by (auto simp: getInputByIndex_def Let_def)
qed

theorem getInputByIndex_returns_witness:
  "distinct (map fst default_inputs) \<and> ''undefined'' \<notin> fst ` set default_inputs \<and>
   int (length default_inputs) \<le> 10 \<and> getInputByIndex default_inputs 10 = Inr None \<and>
   (0::int) \<le> 4 \<and> 4 < int (length default_inputs) \<and>
   map_option fn_id (projr (getInputByIndex default_inputs 4)) = Some ''cancel''"
proof -
  have d: "distinct (map fst default_inputs)" by (simp add: default_keys)
  have "''undefined'' \<notin> set (map fst default_inputs)"
    unfolding default_keys by simp
  then have u: "''undefined'' \<notin> fst ` set default_inputs" by simp
  have l: "length default_inputs = 10" by (simp add: default_inputs_def)
  have n: "default_inputs ! 4 = mk_control ''cancel'' ''cancel'' ''Cancel'' ''KeyX'' 1"
    by (simp add: default_inputs_def)
  from getInputByIndex_returns [OF d u, of 10] getInputByIndex_returns [OF d u, of 4]
  show ?thesis using d u by (simp add: l n mk_control_def)
qed

text \<open>
  Claim C8 as stated fails: the default table has ten functions, and the index 10
  returns \<open>undefined\<close>, not the failure \<open>IndexOutOfRange\<close>.
\<close>

theorem getInputByIndex_out_of_range_counterexample:
  "int (length default_inputs) \<le> 10 \<and> getInputByIndex default_inputs 10 = Inr None \<and>
   getInputByIndex default_inputs 10 \<noteq> Inl IndexOutOfRange"
  by (simp add: getInputByIndex_def default_inputs_def mk_control_def)

section \<open>Icons of bindings that the tables do not list\<close>

text \<open>
  Claim C9 at a failing input. The function \<open>up\<close> is rebound to the key \<open>F1\<close>, which
  \<open>codeToIconIndex\<close> does not list: \<open>getKeyboardControlIconIndex\<close> returns \<open>NaN\<close>, while
  the branch \<open>KB\<close> of \<open>obtainEscapeCodeIconIndex\<close> gives the same code the icon
  \<open>defaultButtonIcon\<close> (64 with no icon offset). Rebound to the gamepad button 16, which
  \<open>gamepadIndexToIconIndex\<close> does not list, \<open>getGamepadControlIconIndex\<close> returns
  \<open>NaN\<close> as well.
\<close>

theorem unlisted_binding_icon_is_NaN:
  "err_bind initial_state (\<lambda>s0.
     err_bind (setKeyboardButton ''up'' (Str ''F1'') s0) (\<lambda>s1.
       getKeyboardControlIconIndex 0 s1 ''up'')) = Inr NaN \<and>
   map_of codeToIconIndex ''F1'' = None \<and>
   escapeCodeKB 0 ''F1'' = defaultButtonIcon 0 \<and> defaultButtonIcon 0 = 64 \<and>
   err_bind initial_state (\<lambda>s0.
     err_bind (setGamepadButton ''up'' (Num 16) s0) (\<lambda>s1.
       getGamepadControlIconIndex 0 s1 ''up'')) = Inr NaN \<and>
   map_of gamepadIndexToIconIndex ''16'' = None"
  by code_simp

section \<open>The static names after a rebind\<close>

text \<open>
  Claim C2 at a failing input. In the initial state the key \<open>Tab\<close> maps to
  \<open>static_tab\<close>. After \<open>setKeyboardButton("up", "Tab")\<close> the key \<open>Tab\<close> maps to
  \<open>up\<close> alone and no key maps to \<open>static_tab\<close>; a key-down of \<open>Tab\<close> then holds
  \<open>up\<close> and not \<open>static_tab\<close>. The remap scene reaches the same state: the keyboard
  cell of the first row is selected and \<open>Tab\<close> is pressed.
\<close>

theorem static_tab_lost_by_rebind:
  "err_bind initial_state (\<lambda>s0.
     err_bind (setKeyboardButton ''up'' (Str ''Tab'') s0) (\<lambda>s1.
       let s2 = onKeyDown \<lparr>ev_code = ''Tab'', ev_keyCode = 9, ev_which = 9\<rparr> s1
       in Inr (map_of (keyMapper s0) ''Tab'', map_of (keyMapper s1) ''Tab'',
               ''static_tab'' \<in> set (concat (map snd (keyMapper s1))),
               isPressed s2 ''static_tab'', isPressed s2 ''up'')))
     = Inr (Some [''static_tab''], Some [''up''], False, False, True) \<and>
   err_bind initial_state (\<lambda>s0.
     err_bind (startRemap 2 s0) (\<lambda>s1.
     err_bind (keydown idle_externals \<lparr>ev_code = ''Tab'', ev_keyCode = 9, ev_which = 9\<rparr> s1)
       (\<lambda>(s2, calls).
          Inr (map_of (keyMapper s2) ''Tab'',
               ''static_tab'' \<in> set (concat (map snd (keyMapper s2)))))))
     = Inr (Some [''up''], False)"
  by code_simp

section \<open>The configuration round trip\<close>

lemma fold_map_entry_keys:
  "map fst (fold (\<lambda>(key, b) t. AList.map_entry key (F b) t) m T) = map fst T"
  by (induction m arbitrary: T) (auto simp: map_fst_map_entry)

lemma fold_map_entry_lookup:
  "distinct (map fst m) \<Longrightarrow>
   map_of (fold (\<lambda>(key, b) t. AList.map_entry key (F b) t) m T) f =
     (case map_of T f of None \<Rightarrow> None
      | Some c \<Rightarrow> (case map_of m f of None \<Rightarrow> Some c | Some b \<Rightarrow> Some (F b c)))"
proof (induction m arbitrary: T)
  case Nil
  then show ?case by (simp split: option.splits)
next
  case (Cons p m)
  obtain k b where p: "p = (k, b)" by (cases p)
  from Cons.prems p have d: "distinct (map fst m)" and kn: "map_of m k = None"
    by (auto simp: map_of_eq_None_iff)
  show ?case
    using Cons.IH [OF d, of "AList.map_entry k (F b) T"] kn
    by (auto simp: p map_of_map_entry split: option.splits)
qed

lemma fold_update_lookup:
  "distinct (map fst t) \<Longrightarrow>
   map_of (fold (\<lambda>(k, v) m. AList.update k (g v) m) t m0) f =
     (case map_of t f of Some v \<Rightarrow> Some (g v) | None \<Rightarrow> map_of m0 f)"
proof (induction t arbitrary: m0)
  case Nil
  then show ?case by simp
next
  case (Cons p t)
  obtain k v where p: "p = (k, v)" by (cases p)
  from Cons.prems p have d: "distinct (map fst t)" and kn: "map_of t k = None"
    by (auto simp: map_of_eq_None_iff)
  show ?case
    using Cons.IH [OF d, of "AList.update k (g v) m0"] kn
    by (auto simp: p update_conv' split: option.splits)
qed

lemma fold_update_distinct:
  "distinct (map fst m0) \<Longrightarrow> distinct (map fst (fold (\<lambda>(k, v) m. AList.update k (g v) m) t m0))"
  by (induction t arbitrary: m0) (auto simp: distinct_update)

lemma getControlMap_lookup:
  "distinct (map fst (inputs s)) \<Longrightarrow>
   map_of (getControlMap s) f =
     map_option (\<lambda>d. \<lparr>cfg_keyboardButton = keyboardButton d, cfg_gamepadButton = gamepadButton d\<rparr>)
       (map_of (inputs s) f)"
  unfolding getControlMap_def
  by (simp add: fold_update_lookup split: option.splits)

lemma getControlMap_distinct: "distinct (map fst (getControlMap s))"
  unfolding getControlMap_def by (rule fold_update_distinct) simp

text \<open>
  Claim C4. Let \<open>s\<close> and \<open>t\<close> be states whose tables have the functions of the default
  table (every table reached by rebinding, resetting or loading has). Applying to \<open>t\<close> the
  data made from \<open>s\<close> returns normally, and the result has for every function the keyboard
  and the gamepad binding of \<open>s\<close>, and the preferred gamepad name of \<open>s\<close>. With \<open>t = s\<close>
  this is the round trip in one state; with the initial state for \<open>t\<close> it is saving in
  one session and loading in the next.
\<close>

theorem config_round_trip:
  assumes ks: "keys_ok (inputs s)" and kt: "keys_ok (inputs t)"
  shows "\<exists>t'. applyData clamp n (makeData s) t = Inr t' \<and>
     (\<forall>f. map_option keyboardButton (map_of (inputs t') f) =
            map_option keyboardButton (map_of (inputs s) f)) \<and>
     (\<forall>f. map_option gamepadButton (map_of (inputs t') f) =
            map_option gamepadButton (map_of (inputs s) f)) \<and>
     targetGamepadName t' = targetGamepadName s"
proof -
  let ?F = "\<lambda>b func. func\<lparr>gamepadButton := cfg_gamepadButton b, keyboardButton := cfg_keyboardButton b\<rparr>"
  let ?t1 = "setTargetGamepadName (targetGamepadName s)
               (changeButtonSet n (clamp (activeButtonSet s) 0 n) t)"
  let ?T = "fold (\<lambda>(key, b) t. AList.map_entry key (?F b) t) (getControlMap s) (inputs ?t1)"
  let ?t2 = "?t1\<lparr>inputs := ?T\<rparr>"
  have i1: "inputs ?t1 = inputs t"
    by (simp add: setTargetGamepadName_def changeButtonSet_def)
  have g1: "targetGamepadName ?t2 = targetGamepadName s"
    by (simp add: setTargetGamepadName_def changeButtonSet_def)
  have k2: "keys_ok (inputs ?t2)"
    using kt by (simp add: keys_ok_def fold_map_entry_keys i1)
  from rebuild_ok [OF k2] obtain km gm where
    r: "rebuildButtonMapper ?t2 = Inr (clear (?t2\<lparr>keyMapper := km, gamepadMapper := gm\<rparr>))" by blast
  let ?t' = "clear (?t2\<lparr>keyMapper := km, gamepadMapper := gm\<rparr>)"
  have a: "applyData clamp n (makeData s) t = Inr ?t'"
    using r by (simp add: applyData_def makeData_def setControlMap_def Let_def)
  have it: "inputs ?t' = ?T" by simp
  have gt: "targetGamepadName ?t' = targetGamepadName s"
    using g1 by (simp add: clear_def Let_def)
  have ds: "distinct (map fst (inputs s))" using ks by (rule keys_ok_distinct)
  have "set (map fst (inputs t)) = set (map fst (inputs s))"
    using ks kt by (simp only: keys_ok_def)
  then have dom: "fst ` set (inputs t) = fst ` set (inputs s)" by simp
  have same: "\<And>f. (map_of (inputs t) f = None) = (map_of (inputs s) f = None)"
    by (simp add: map_of_eq_None_iff dom)
  have look: "\<And>f. map_of ?T f =
      (case map_of (inputs t) f of None \<Rightarrow> None
       | Some c \<Rightarrow> (case map_of (getControlMap s) f of None \<Rightarrow> Some c | Some b \<Rightarrow> Some (?F b c)))"
    using fold_map_entry_lookup [where m = "getControlMap s" and F = ?F and T = "inputs ?t1",
        OF getControlMap_distinct]
    by (simp add: i1)
  have kb: "\<forall>f. map_option keyboardButton (map_of (inputs ?t') f) =
            map_option keyboardButton (map_of (inputs s) f)"
  proof
    fix f
    show "map_option keyboardButton (map_of (inputs ?t') f) = map_option keyboardButton (map_of (inputs s) f)"
      unfolding it look getControlMap_lookup [OF ds]
      using same [of f] by (cases "map_of (inputs t) f"; cases "map_of (inputs s) f") simp_all
  qed
  have gp: "\<forall>f. map_option gamepadButton (map_of (inputs ?t') f) =
            map_option gamepadButton (map_of (inputs s) f)"
  proof
    fix f
    show "map_option gamepadButton (map_of (inputs ?t') f) = map_option gamepadButton (map_of (inputs s) f)"
      unfolding it look getControlMap_lookup [OF ds]
      using same [of f] by (cases "map_of (inputs t) f"; cases "map_of (inputs s) f") simp_all
  qed
  from a kb gp gt show ?thesis by blast
qed

text \<open>
  Saved after \<open>cancel\<close> was rebound to button 0 (so that \<open>confirm\<close> holds button 1),
  loaded into the initial state.
\<close>

theorem config_round_trip_witness:
  "\<exists>s0 s1 t'. initial_state = Inr s0 \<and> setGamepadButton ''cancel'' (Num 0) s0 = Inr s1 \<and>
     keys_ok (inputs s1) \<and> keys_ok (inputs s0) \<and>
     map_option gamepadButton (map_of (inputs s0) ''cancel'') = Some (Num 1) \<and>
     applyData (\<lambda>x lo hi. min (max x lo) hi) 4 (makeData s1) s0 = Inr t' \<and>
     map_option gamepadButton (map_of (inputs t') ''cancel'') = Some (Num 0) \<and>
     map_option gamepadButton (map_of (inputs t') ''confirm'') = Some (Num 1) \<and>
     targetGamepadName t' = targetGamepadName s1"
proof -
  from initial_ok obtain s0 where s0: "initial_state = Inr s0" and t0: "inputs s0 = default_inputs"
    by blast
  have k0: "keys_ok (inputs s0)" by (simp add: t0 keys_ok_default)
  let ?cancel = "snd (mk_control ''cancel'' ''cancel'' ''Cancel'' ''KeyX'' 1)"
  from setControlButton_inputs [OF k0, of "''cancel''" "Num 0" GamepadButton]
  obtain s1 where r1: "setGamepadButton ''cancel'' (Num 0) s0 = Inr s1"
    and t1: "inputs s1 = rebind_table ''cancel'' (Num 0) GamepadButton ?cancel default_inputs"
    by (auto simp: setGamepadButton_def t0 default_lookup)
  have k1: "keys_ok (inputs s1)" by (simp add: t1 keys_ok_def map_fst_rebind_table)
  have b1: "map_option gamepadButton (map_of (inputs s1) ''cancel'') = Some (Num 0)"
    "map_option gamepadButton (map_of (inputs s1) ''confirm'') = Some (Num 1)"
    by (simp_all add: t1 rebind_table_def default_inputs_def mk_control_def)
  have c0: "map_option gamepadButton (map_of (inputs s0) ''cancel'') = Some (Num 1)"
    by (simp add: t0 default_lookup mk_control_def)
  from config_round_trip [OF k1 k0, of "\<lambda>x lo hi. min (max x lo) hi" 4] obtain t' where
    a: "applyData (\<lambda>x lo hi. min (max x lo) hi) 4 (makeData s1) s0 = Inr t'"
    and g: "\<forall>f. map_option gamepadButton (map_of (inputs t') f) = map_option gamepadButton (map_of (inputs s1) f)"
    and n: "targetGamepadName t' = targetGamepadName s1" by blast
  have e1: "map_option gamepadButton (map_of (inputs t') ''cancel'') = Some (Num 0)"
    using g b1(1) by simp
  have e2: "map_option gamepadButton (map_of (inputs t') ''confirm'') = Some (Num 1)"
    using g b1(2) by simp
  show ?thesis
    apply (rule exI [of _ s0], rule exI [of _ s1], rule exI [of _ t'])
    apply (intro conjI)
    apply (fact s0 r1 k1 k0 c0 a e1 e2 n)+
    done
qed

section \<open>One-shot captures\<close>

lemma clear_callbacks [simp]:
  "keyboardInputCallback (clear s) = keyboardInputCallback s"
  "gamepadInputCallback (clear s) = gamepadInputCallback s"
  "gamepadInputCallbackType (clear s) = gamepadInputCallbackType s"
  by (simp_all add: clear_def Let_def)

lemma onKeyDown_callbacks [simp]:
  "keyboardInputCallback (onKeyDown e s) = keyboardInputCallback s"
  "gamepadInputCallback (onKeyDown e s) = gamepadInputCallback s"
  "gamepadInputCallbackType (onKeyDown e s) = gamepadInputCallbackType s"
  by (simp_all add: onKeyDown_def Let_def split: option.splits)

lemma updateActiveGamepad_callbacks [simp]:
  "keyboardInputCallback (updateActiveGamepad pads s) = keyboardInputCallback s"
  "gamepadInputCallback (updateActiveGamepad pads s) = gamepadInputCallback s"
  "gamepadInputCallbackType (updateActiveGamepad pads s) = gamepadInputCallbackType s"
  by (simp_all add: updateActiveGamepad_def Let_def split: option.splits)

lemma nextKeyboard_idle:
  "keyboardInputCallback s = None \<Longrightarrow>
   nextKeyboardInputHandler ext e s = Inr (s\<lparr>lastInputDevice := Keyboard\<rparr>, [])"
  by (simp add: nextKeyboardInputHandler_def err_bind_def)

lemma nextKeyboard_armed:
  "keyboardInputCallback s = Some h \<Longrightarrow>
   nextKeyboardInputHandler ext e s =
     err_bind (invoke_keyboard ext h e s)
       (\<lambda>s'. Inr (s'\<lparr>keyboardInputCallback := None, lastInputDevice := Keyboard\<rparr>, [(h, e)]))"
  by (cases "invoke_keyboard ext h e s") (simp_all add: nextKeyboardInputHandler_def err_bind_def)

text \<open>
  Claim C5. After \<open>onNextKeyboardInput(h)\<close>, the first key-down event runs the normal
  aggregation (\<open>_onKeyDown\<close>) and then calls \<open>h\<close> once with that event; when \<open>h\<close>
  returns, the capture slot is cleared whatever \<open>h\<close> did, so the second key-down event
  calls no handler and changes the state only through \<open>_onKeyDown\<close> and the
  last-used device.
\<close>

theorem keyboard_capture_one_shot:
  "keydown ext e1 (onNextKeyboardInput h s) =
     err_bind (invoke_keyboard ext h e1 (onKeyDown e1 (onNextKeyboardInput h s)))
       (\<lambda>s'. Inr (s'\<lparr>keyboardInputCallback := None, lastInputDevice := Keyboard\<rparr>, [(h, e1)])) \<and>
   (\<forall>s2 calls1. keydown ext e1 (onNextKeyboardInput h s) = Inr (s2, calls1) \<longrightarrow>
      calls1 = [(h, e1)] \<and> keyboardInputCallback s2 = None \<and>
      keydown ext e2 s2 = Inr ((onKeyDown e2 s2)\<lparr>lastInputDevice := Keyboard\<rparr>, []))"
proof -
  let ?s1 = "onKeyDown e1 (onNextKeyboardInput h s)"
  have armed: "keyboardInputCallback ?s1 = Some h" by (simp add: onNextKeyboardInput_def)
  have A: "keydown ext e1 (onNextKeyboardInput h s) =
     err_bind (invoke_keyboard ext h e1 ?s1)
       (\<lambda>s'. Inr (s'\<lparr>keyboardInputCallback := None, lastInputDevice := Keyboard\<rparr>, [(h, e1)]))"
    unfolding keydown_def by (rule nextKeyboard_armed [OF armed])
  have B: "\<forall>s2 calls1. keydown ext e1 (onNextKeyboardInput h s) = Inr (s2, calls1) \<longrightarrow>
      calls1 = [(h, e1)] \<and> keyboardInputCallback s2 = None \<and>
      keydown ext e2 s2 = Inr ((onKeyDown e2 s2)\<lparr>lastInputDevice := Keyboard\<rparr>, [])"
  proof (intro allI impI)
    fix s2 calls1
    assume r: "keydown ext e1 (onNextKeyboardInput h s) = Inr (s2, calls1)"
    from r [unfolded A] obtain s' where
      "s2 = s'\<lparr>keyboardInputCallback := None, lastInputDevice := Keyboard\<rparr>" "calls1 = [(h, e1)]"
      by (cases "invoke_keyboard ext h e1 ?s1") (auto simp: err_bind_def)
    then have c: "calls1 = [(h, e1)]" and n: "keyboardInputCallback s2 = None" by simp_all
    have "keyboardInputCallback (onKeyDown e2 s2) = None" using n by simp
    then have "keydown ext e2 s2 = Inr ((onKeyDown e2 s2)\<lparr>lastInputDevice := Keyboard\<rparr>, [])"
      unfolding keydown_def by (rule nextKeyboard_idle)
    with c n show "calls1 = [(h, e1)] \<and> keyboardInputCallback s2 = None \<and>
      keydown ext e2 s2 = Inr ((onKeyDown e2 s2)\<lparr>lastInputDevice := Keyboard\<rparr>, [])" by simp
  qed
  from A B show ?thesis by (rule conjI)
qed

text \<open>
  In the initial state an external handler is armed; the keys \<open>Z\<close> and \<open>X\<close> go down.
\<close>

theorem keyboard_capture_one_shot_witness:
  "\<exists>s0 s2. initial_state = Inr s0 \<and>
     keydown idle_externals \<lparr>ev_code = ''KeyZ'', ev_keyCode = 90, ev_which = 90\<rparr>
       (onNextKeyboardInput (ExternalKeyboard 0) s0) =
       Inr (s2, [(ExternalKeyboard 0, \<lparr>ev_code = ''KeyZ'', ev_keyCode = 90, ev_which = 90\<rparr>)]) \<and>
     keyboardInputCallback s2 = None \<and>
     keydown idle_externals \<lparr>ev_code = ''KeyX'', ev_keyCode = 88, ev_which = 88\<rparr> s2 =
       Inr ((onKeyDown \<lparr>ev_code = ''KeyX'', ev_keyCode = 88, ev_which = 88\<rparr> s2)
              \<lparr>lastInputDevice := Keyboard\<rparr>, [])"
proof -
  from initial_ok obtain s0 where s0: "initial_state = Inr s0" by blast
  let ?z = "\<lparr>ev_code = ''KeyZ'', ev_keyCode = 90, ev_which = 90\<rparr>"
  let ?x = "\<lparr>ev_code = ''KeyX'', ev_keyCode = 88, ev_which = 88\<rparr>"
  let ?h = "ExternalKeyboard 0"
  note t = keyboard_capture_one_shot [of idle_externals ?z ?h s0 ?x]
  define s2 where "s2 = (onKeyDown ?z (onNextKeyboardInput ?h s0))
                          \<lparr>keyboardInputCallback := None, lastInputDevice := Keyboard\<rparr>"
  have k: "keydown idle_externals ?z (onNextKeyboardInput ?h s0) = Inr (s2, [(?h, ?z)])"
    unfolding t [THEN conjunct1] s2_def
    by (simp add: invoke_keyboard_def idle_externals_def err_bind_def)
  from t [THEN conjunct2, rule_format, OF k]
  have "keyboardInputCallback s2 = None"
    "keydown idle_externals ?x s2 = Inr ((onKeyDown ?x s2)\<lparr>lastInputDevice := Keyboard\<rparr>, [])"
    by simp_all
  with s0 k show ?thesis by blast
qed

lemma nextGamepad_idle:
  "gamepadInputCallback s = None \<Longrightarrow>
   nextGamepadInputHandler ext pads i ty s =
     Inr (if lastInputDevice s \<noteq> Gamepad
          then (updateActiveGamepad pads s)\<lparr>lastInputDevice := Gamepad\<rparr> else s, [])"
  by (simp add: nextGamepadInputHandler_def err_bind_def)

lemma nextGamepad_armed:
  "gamepadInputCallback s = Some cb \<Longrightarrow> gamepadInputCallbackType s = Some ty \<Longrightarrow>
   nextGamepadInputHandler ext pads i ty s =
     err_bind (invoke_gamepad ext cb i ty (cancelOnNextGamepadInput s))
       (\<lambda>s'. Inr (if lastInputDevice s' \<noteq> Gamepad
                   then (updateActiveGamepad pads s')\<lparr>lastInputDevice := Gamepad\<rparr> else s',
                   [(cb, i, ty)]))"
  by (cases "invoke_gamepad ext cb i ty (cancelOnNextGamepadInput s)")
     (simp_all add: nextGamepadInputHandler_def err_bind_def cancelOnNextGamepadInput_def)

text \<open>
  Claim C10. When a capture is armed with the callback \<open>cb\<close> for the edge \<open>ty\<close> and
  an edge of that kind is delivered, the callback is called once, on a state whose
  callback and type are already \<open>null\<close>. What the callback leaves in the two fields is
  what the handler leaves: a capture installed by the callback is kept, and when the
  callback installs none, no later edge calls anything. The press handler of the remap
  scene, which arms for the release, leaves the release handler armed.
\<close>

theorem gamepad_capture_cleared_before_callback:
  assumes cb: "gamepadInputCallback s = Some cb" and ty: "gamepadInputCallbackType s = Some ty"
  shows "gamepadInputCallback (cancelOnNextGamepadInput s) = None \<and>
     gamepadInputCallbackType (cancelOnNextGamepadInput s) = None \<and>
     nextGamepadInputHandler ext pads i ty s =
       err_bind (invoke_gamepad ext cb i ty (cancelOnNextGamepadInput s))
         (\<lambda>s'. Inr (if lastInputDevice s' \<noteq> Gamepad
                     then (updateActiveGamepad pads s')\<lparr>lastInputDevice := Gamepad\<rparr> else s',
                     [(cb, i, ty)])) \<and>
     (\<forall>s'. invoke_gamepad ext cb i ty (cancelOnNextGamepadInput s) = Inr s' \<longrightarrow>
        (\<exists>s2. nextGamepadInputHandler ext pads i ty s = Inr (s2, [(cb, i, ty)]) \<and>
           gamepadInputCallback s2 = gamepadInputCallback s' \<and>
           gamepadInputCallbackType s2 = gamepadInputCallbackType s' \<and>
           (gamepadInputCallback s' = None \<longrightarrow>
              (\<forall>i2 ty2. \<exists>s3. nextGamepadInputHandler ext pads i2 ty2 s2 = Inr (s3, []))))) \<and>
     (\<forall>targetFunction. cb = ArmReleaseClosure targetFunction \<longrightarrow>
        (\<exists>s2. nextGamepadInputHandler ext pads i ty s = Inr (s2, [(cb, i, ty)]) \<and>
           gamepadInputCallback s2 = Some (RemapGamepadInputHandler targetFunction) \<and>
           gamepadInputCallbackType s2 = Some Release))"
proof -
  let ?c = "cancelOnNextGamepadInput s"
  let ?track = "\<lambda>s'. if lastInputDevice s' \<noteq> Gamepad
                     then (updateActiveGamepad pads s')\<lparr>lastInputDevice := Gamepad\<rparr> else s'"
  have N: "gamepadInputCallback ?c = None" "gamepadInputCallbackType ?c = None"
    by (simp_all add: cancelOnNextGamepadInput_def)
  have A: "nextGamepadInputHandler ext pads i ty s =
       err_bind (invoke_gamepad ext cb i ty ?c) (\<lambda>s'. Inr (?track s', [(cb, i, ty)]))"
    by (rule nextGamepad_armed [OF cb ty])
  have B: "\<forall>s'. invoke_gamepad ext cb i ty ?c = Inr s' \<longrightarrow>
        (\<exists>s2. nextGamepadInputHandler ext pads i ty s = Inr (s2, [(cb, i, ty)]) \<and>
           gamepadInputCallback s2 = gamepadInputCallback s' \<and>
           gamepadInputCallbackType s2 = gamepadInputCallbackType s' \<and>
           (gamepadInputCallback s' = None \<longrightarrow>
              (\<forall>i2 ty2. \<exists>s3. nextGamepadInputHandler ext pads i2 ty2 s2 = Inr (s3, []))))"
  proof (intro allI impI)
    fix s'
    assume r: "invoke_gamepad ext cb i ty ?c = Inr s'"
    define tr where "tr = ?track s'"
    have 1: "nextGamepadInputHandler ext pads i ty s = Inr (tr, [(cb, i, ty)])"
      by (simp add: A r err_bind_def tr_def)
    have 3: "gamepadInputCallback tr = gamepadInputCallback s'"
      "gamepadInputCallbackType tr = gamepadInputCallbackType s'"
      by (simp_all add: tr_def)
    have 2: "gamepadInputCallback s' = None \<longrightarrow>
              (\<forall>i2 ty2. \<exists>s3. nextGamepadInputHandler ext pads i2 ty2 tr = Inr (s3, []))"
    proof (intro impI allI)
      fix i2 ty2
      assume "gamepadInputCallback s' = None"
      then have "gamepadInputCallback tr = None" by (simp only: 3)
      from nextGamepad_idle [OF this]
      show "\<exists>s3. nextGamepadInputHandler ext pads i2 ty2 tr = Inr (s3, [])" by blast
    qed
    show "\<exists>s2. nextGamepadInputHandler ext pads i ty s = Inr (s2, [(cb, i, ty)]) \<and>
           gamepadInputCallback s2 = gamepadInputCallback s' \<and>
           gamepadInputCallbackType s2 = gamepadInputCallbackType s' \<and>
           (gamepadInputCallback s' = None \<longrightarrow>
              (\<forall>i2 ty2. \<exists>s3. nextGamepadInputHandler ext pads i2 ty2 s2 = Inr (s3, [])))"
      by (rule exI [of _ tr], intro conjI, rule 1, rule 3(1), rule 3(2), rule 2)
  qed
  have C: "\<forall>targetFunction. cb = ArmReleaseClosure targetFunction \<longrightarrow>
        (\<exists>s2. nextGamepadInputHandler ext pads i ty s = Inr (s2, [(cb, i, ty)]) \<and>
           gamepadInputCallback s2 = Some (RemapGamepadInputHandler targetFunction) \<and>
           gamepadInputCallbackType s2 = Some Release)"
  proof (intro allI impI)
    fix targetFunction
    assume e: "cb = ArmReleaseClosure targetFunction"
    let ?s' = "onNextGamepadRelease (RemapGamepadInputHandler targetFunction) ?c"
    have r: "invoke_gamepad ext cb i ty ?c = Inr ?s'" by (simp add: e invoke_gamepad_def)
    define tr where "tr = ?track ?s'"
    have 1: "nextGamepadInputHandler ext pads i ty s = Inr (tr, [(cb, i, ty)])"
      by (simp add: A r err_bind_def tr_def)
    have 2: "gamepadInputCallback tr = Some (RemapGamepadInputHandler targetFunction)"
      "gamepadInputCallbackType tr = Some Release"
      by (simp_all add: onNextGamepadRelease_def tr_def)
    show "\<exists>s2. nextGamepadInputHandler ext pads i ty s = Inr (s2, [(cb, i, ty)]) \<and>
           gamepadInputCallback s2 = Some (RemapGamepadInputHandler targetFunction) \<and>
           gamepadInputCallbackType s2 = Some Release"
      by (rule exI [of _ tr], intro conjI, rule 1, rule 2(1), rule 2(2))
  qed
  from N A B C show ?thesis by (intro conjI)
qed

text \<open>
  The remap scene arms the gamepad cell of the first row; button 3 is pressed.
\<close>

theorem gamepad_capture_cleared_before_callback_witness:
  "\<exists>s1 tf s2. startRemap 1 blank_state = Inr s1 \<and>
     gamepadInputCallback s1 = Some (ArmReleaseClosure tf) \<and>
     gamepadInputCallbackType s1 = Some Press \<and>
     nextGamepadInputHandler idle_externals [] 3 Press s1 =
       Inr (s2, [(ArmReleaseClosure tf, 3, Press)]) \<and>
     gamepadInputCallback s2 = Some (RemapGamepadInputHandler tf) \<and>
     gamepadInputCallbackType s2 = Some Release"
proof -
  define tf where "tf = map_of default_inputs ''up''"
  define s1 where "s1 = onNextGamepadPress (ArmReleaseClosure tf) blank_state"
  have r: "startRemap 1 blank_state = Inr s1"
    by (simp add: startRemap_def getInputByIndex_def blank_state_def default_keys err_bind_def
        s1_def tf_def signed_modulo_int_def)
  have cb: "gamepadInputCallback s1 = Some (ArmReleaseClosure tf)"
    and ty: "gamepadInputCallbackType s1 = Some Press"
    by (simp_all add: s1_def onNextGamepadPress_def)
  from gamepad_capture_cleared_before_callback [OF cb ty, of idle_externals "[]" 3]
  obtain s2 where "nextGamepadInputHandler idle_externals [] 3 Press s1 =
       Inr (s2, [(ArmReleaseClosure tf, 3, Press)])"
    "gamepadInputCallback s2 = Some (RemapGamepadInputHandler tf)"
    "gamepadInputCallbackType s2 = Some Release"
    by blast
  with r cb ty show ?thesis by blast
qed

section \<open>The first transition of a frame\<close>

lemma find_transition_first:
  "k < length xs \<Longrightarrow> xs ! k \<noteq> nth_js ns (i + k) \<Longrightarrow>
   (\<forall>j<k. xs ! j = nth_js ns (i + j)) \<Longrightarrow>
   find_transition xs ns i =
     Some (i + k, if nth_js ns (i + k) = Some True then Press else Release)"
proof (induction xs arbitrary: i k)
  case Nil
  then show ?case by simp
next
  case (Cons x xs)
  show ?case
  proof (cases k)
    case 0
    with Cons.prems show ?thesis by simp
  next
    case (Suc k')
    from Cons.prems(3) Suc have x: "x = nth_js ns i" by force
    have 1: "k' < length xs" using Cons.prems(1) Suc by simp
    have 2: "xs ! k' \<noteq> nth_js ns (Suc i + k')" using Cons.prems(2) Suc by simp
    have 3: "\<forall>j<k'. xs ! j = nth_js ns (Suc i + j)"
    proof (intro allI impI)
      fix j assume "j < k'"
      then have "Suc j < k" using Suc by simp
      with Cons.prems(3) have "(x # xs) ! Suc j = nth_js ns (i + Suc j)" by blast
      then show "xs ! j = nth_js ns (Suc i + j)" by simp
    qed
    from Cons.IH [OF 1 2 3] show ?thesis using x Suc by simp
  qed
qed

lemma find_transition_none:
  "(\<forall>j<length xs. xs ! j = nth_js ns (i + j)) \<Longrightarrow> find_transition xs ns i = None"
proof (induction xs arbitrary: i)
  case Nil
  then show ?case by simp
next
  case (Cons x xs)
  from Cons.prems have x: "x = nth_js ns i" by force
  have "\<forall>j<length xs. xs ! j = nth_js ns (Suc i + j)"
  proof (intro allI impI)
    fix j assume "j < length xs"
    then have "Suc j < length (x # xs)" by simp
    with Cons.prems have "(x # xs) ! Suc j = nth_js ns (i + Suc j)" by blast
    then show "xs ! j = nth_js ns (Suc i + j)" by simp
  qed
  from Cons.IH [OF this] show ?case using x by simp
qed

lemma find_transition_sound:
  "find_transition xs ns i = Some (k, ty) \<Longrightarrow>
   i \<le> k \<and> k < i + length xs \<and> xs ! (k - i) \<noteq> nth_js ns k \<and>
   (\<forall>j. i \<le> j \<and> j < k \<longrightarrow> xs ! (j - i) = nth_js ns j) \<and>
   ty = (if nth_js ns k = Some True then Press else Release)"
proof (induction xs arbitrary: i)
  case Nil
  then show ?case by simp
next
  case (Cons x xs)
  show ?case
  proof (cases "x \<noteq> nth_js ns i")
    case True
    with Cons.prems show ?thesis by auto
  next
    case False
    with Cons.prems have "find_transition xs ns (Suc i) = Some (k, ty)" by simp
    from Cons.IH [OF this] have ih: "Suc i \<le> k" "k < Suc i + length xs"
      "xs ! (k - Suc i) \<noteq> nth_js ns k"
      "\<forall>j. Suc i \<le> j \<and> j < k \<longrightarrow> xs ! (j - Suc i) = nth_js ns j"
      "ty = (if nth_js ns k = Some True then Press else Release)" by simp_all
    have a: "(x # xs) ! (k - i) \<noteq> nth_js ns k"
    proof -
      from ih(1) have "k - i = Suc (k - Suc i)" by simp
      then show ?thesis using ih(3) by simp
    qed
    have b: "\<forall>j. i \<le> j \<and> j < k \<longrightarrow> (x # xs) ! (j - i) = nth_js ns j"
    proof (intro allI impI)
      fix j assume j: "i \<le> j \<and> j < k"
      show "(x # xs) ! (j - i) = nth_js ns j"
      proof (cases "j = i")
        case True
        then show ?thesis using False by simp
      next
        case False
        with j have s: "Suc i \<le> j" by simp
        then have "j - i = Suc (j - Suc i)" by simp
        then show ?thesis using ih(4) s j by simp
      qed
    qed
    from ih(1,2,5) a b show ?thesis by simp
  qed
qed

lemma set_names_lookup:
  "map_of (set_names ns v cs) b = (if b \<in> set ns then Some v else map_of cs b)"
  unfolding set_names_def
  by (induction ns arbitrary: cs) (auto simp: update_conv')

lemma stateOf_update [simp]:
  "stateOf (originalUpdateGamepadState gp s) (pad_index gp) = newState gp"
  by (simp add: stateOf_def originalUpdateGamepadState_def update_conv')

lemma apply_transitions_upto:
  "j < n \<Longrightarrow> nth_js ns j \<noteq> nth_js ls j \<Longrightarrow> map_of gm (show_nat j) = Some names \<Longrightarrow>
   b \<in> set names \<Longrightarrow>
   (\<forall>j' names'. j < j' \<and> j' < n \<and> nth_js ns j' \<noteq> nth_js ls j' \<and>
       map_of gm (show_nat j') = Some names' \<longrightarrow> b \<notin> set names') \<Longrightarrow>
   map_of (fold (transition_step gm ls ns) [0..<n] cs) b = Some (nth_js ns j)"
proof (induction n)
  case 0
  then show ?case by simp
next
  case (Suc n)
  let ?cs = "fold (transition_step gm ls ns) [0..<n] cs"
  have f: "fold (transition_step gm ls ns) [0..<Suc n] cs = transition_step gm ls ns n ?cs"
    by simp
  show ?case
  proof (cases "j = n")
    case True
    with Suc.prems show ?thesis
      by (simp add: transition_step_def set_names_lookup)
  next
    case False
    with Suc.prems(1) have jn: "j < n" by simp
    have later: "\<forall>j' names'. j < j' \<and> j' < n \<and> nth_js ns j' \<noteq> nth_js ls j' \<and>
       map_of gm (show_nat j') = Some names' \<longrightarrow> b \<notin> set names'"
    proof (intro allI impI)
      fix j' names'
      assume "j < j' \<and> j' < n \<and> nth_js ns j' \<noteq> nth_js ls j' \<and>
        map_of gm (show_nat j') = Some names'"
      then have "j < j' \<and> j' < Suc n \<and> nth_js ns j' \<noteq> nth_js ls j' \<and>
        map_of gm (show_nat j') = Some names'" by simp
      then show "b \<notin> set names'" by (rule Suc.prems(5) [rule_format])
    qed
    from Suc.IH [OF jn Suc.prems(2,3,4) later]
    have ih: "map_of ?cs b = Some (nth_js ns j)" .
    have keep: "map_of (transition_step gm ls ns n ?cs) b = map_of ?cs b"
    proof (cases "nth_js ns n \<noteq> nth_js ls n")
      case True
      show ?thesis
      proof (cases "map_of gm (show_nat n)")
        case None
        then show ?thesis by (simp add: transition_step_def)
      next
        case (Some names')
        with jn True have "j < n \<and> n < Suc n \<and> nth_js ns n \<noteq> nth_js ls n \<and>
          map_of gm (show_nat n) = Some names'" by simp
        then have "b \<notin> set names'" by (rule Suc.prems(5) [rule_format])
        then show ?thesis using Some by (simp add: transition_step_def set_names_lookup)
      qed
    next
      case False
      then show ?thesis by (simp add: transition_step_def)
    qed
    show ?thesis unfolding f keep ih ..
  qed
qed

lemma nextGamepad_calls:
  "nextGamepadInputHandler ext pads i ty s = Inr (s', calls) \<Longrightarrow>
   calls = [] \<or> (\<exists>cb. calls = [(cb, i, ty)])"
  by (auto simp: nextGamepadInputHandler_def err_bind_def split: option.splits if_splits sum.splits)

text \<open>
  Claim C3. For the active gamepad, \<open>Input._updateGamepadState\<close> compares the stored
  state of the previous frame with the new state over the indices of the previous state.
  At the lowest index where they differ it calls \<open>nextGamepadInputHandler\<close> with that
  index and the edge (press when the new value is \<open>true\<close>, release otherwise), on the
  state in which the new vector is already stored and applied; when they do not differ it
  calls nothing. It makes at most one call of a capture callback, for that index. Every
  index whose value changed writes its new value to the names mapped to it, the first one
  or a later one alike (a name mapped to several changed indices ends with the value of
  the last of them).
\<close>

theorem first_transition_wins:
  assumes act: "activeGamepadIndex s = Some (pad_index gp)"
  shows
    "(\<forall>i. i < length (stateOf s (pad_index gp)) \<and>
          nth_js (stateOf s (pad_index gp)) i \<noteq> nth_js (newState gp) i \<and>
          (\<forall>j<i. nth_js (stateOf s (pad_index gp)) j = nth_js (newState gp) j) \<longrightarrow>
        updateGamepadState ext pads gp s =
          nextGamepadInputHandler ext pads i
            (if nth_js (newState gp) i = Some True then Press else Release)
            (originalUpdateGamepadState gp s)) \<and>
     ((\<forall>i<length (stateOf s (pad_index gp)).
          nth_js (stateOf s (pad_index gp)) i = nth_js (newState gp) i) \<longrightarrow>
        updateGamepadState ext pads gp s = Inr (originalUpdateGamepadState gp s, [])) \<and>
     (\<forall>s' calls. updateGamepadState ext pads gp s = Inr (s', calls) \<longrightarrow>
        calls = [] \<or>
        (\<exists>cb i. calls = [(cb, i, if nth_js (newState gp) i = Some True then Press else Release)] \<and>
           i < length (stateOf s (pad_index gp)) \<and>
           nth_js (stateOf s (pad_index gp)) i \<noteq> nth_js (newState gp) i \<and>
           (\<forall>j<i. nth_js (stateOf s (pad_index gp)) j = nth_js (newState gp) j))) \<and>
     (\<forall>j names b. j < length (newState gp) \<and>
          nth_js (newState gp) j \<noteq> nth_js (stateOf s (pad_index gp)) j \<and>
          map_of (gamepadMapper s) (show_nat j) = Some names \<and> b \<in> set names \<and>
          (\<forall>j' names'. j < j' \<and> j' < length (newState gp) \<and>
             nth_js (newState gp) j' \<noteq> nth_js (stateOf s (pad_index gp)) j' \<and>
             map_of (gamepadMapper s) (show_nat j') = Some names' \<longrightarrow> b \<notin> set names') \<longrightarrow>
        map_of (currentState (originalUpdateGamepadState gp s)) b = Some (nth_js (newState gp) j))"
proof -
  let ?orig = "stateOf s (pad_index gp)"
  let ?ns = "newState gp"
  let ?s2 = "originalUpdateGamepadState gp s"
  have u: "updateGamepadState ext pads gp s =
      (case find_transition ?orig ?ns 0 of
         None \<Rightarrow> Inr (?s2, [])
       | Some (i, ty) \<Rightarrow> nextGamepadInputHandler ext pads i ty ?s2)"
    using act by (simp add: updateGamepadState_def Let_def)
  have n: "\<And>i. i < length ?orig \<Longrightarrow> nth_js ?orig i = ?orig ! i"
    by (simp add: nth_js_def)
  have A: "\<forall>i. i < length ?orig \<and> nth_js ?orig i \<noteq> nth_js ?ns i \<and>
          (\<forall>j<i. nth_js ?orig j = nth_js ?ns j) \<longrightarrow>
        updateGamepadState ext pads gp s =
          nextGamepadInputHandler ext pads i
            (if nth_js ?ns i = Some True then Press else Release) ?s2"
  proof (intro allI impI)
    fix i
    assume h: "i < length ?orig \<and> nth_js ?orig i \<noteq> nth_js ?ns i \<and>
          (\<forall>j<i. nth_js ?orig j = nth_js ?ns j)"
    then have 1: "i < length ?orig" by simp
    from h have "nth_js ?orig i \<noteq> nth_js ?ns i" by simp
    then have 2: "?orig ! i \<noteq> nth_js ?ns (0 + i)" using n [OF 1] by simp
    have 3: "\<forall>j<i. ?orig ! j = nth_js ?ns (0 + j)"
    proof (intro allI impI)
      fix j assume ji: "j < i"
      with h have "nth_js ?orig j = nth_js ?ns j" by simp
      moreover have "j < length ?orig" using ji 1 by simp
      ultimately show "?orig ! j = nth_js ?ns (0 + j)" by (simp add: n)
    qed
    from find_transition_first [OF 1 2 3]
    show "updateGamepadState ext pads gp s =
          nextGamepadInputHandler ext pads i
            (if nth_js ?ns i = Some True then Press else Release) ?s2"
      by (simp add: u)
  qed
  have B: "(\<forall>i<length ?orig. nth_js ?orig i = nth_js ?ns i) \<longrightarrow>
        updateGamepadState ext pads gp s = Inr (?s2, [])"
  proof
    assume h: "\<forall>i<length ?orig. nth_js ?orig i = nth_js ?ns i"
    have "\<forall>j<length ?orig. ?orig ! j = nth_js ?ns (0 + j)"
      using h by (simp add: n)
    from find_transition_none [OF this]
    show "updateGamepadState ext pads gp s = Inr (?s2, [])" by (simp add: u)
  qed
  have C: "\<forall>s' calls. updateGamepadState ext pads gp s = Inr (s', calls) \<longrightarrow>
        calls = [] \<or>
        (\<exists>cb i. calls = [(cb, i, if nth_js ?ns i = Some True then Press else Release)] \<and>
           i < length ?orig \<and> nth_js ?orig i \<noteq> nth_js ?ns i \<and>
           (\<forall>j<i. nth_js ?orig j = nth_js ?ns j))"
  proof (intro allI impI)
    fix s' calls
    assume r: "updateGamepadState ext pads gp s = Inr (s', calls)"
    show "calls = [] \<or>
        (\<exists>cb i. calls = [(cb, i, if nth_js ?ns i = Some True then Press else Release)] \<and>
           i < length ?orig \<and> nth_js ?orig i \<noteq> nth_js ?ns i \<and>
           (\<forall>j<i. nth_js ?orig j = nth_js ?ns j))"
    proof (cases "find_transition ?orig ?ns 0")
      case None
      with r u show ?thesis by simp
    next
      case (Some p)
      obtain i ty where p: "p = (i, ty)" by (cases p)
      from find_transition_sound [OF Some [unfolded p]]
      have f: "i < length ?orig" "?orig ! i \<noteq> nth_js ?ns i"
        "\<forall>j. j < i \<longrightarrow> ?orig ! j = nth_js ?ns j"
        "ty = (if nth_js ?ns i = Some True then Press else Release)" by simp_all
      have g: "\<forall>j<i. nth_js ?orig j = nth_js ?ns j"
      proof (intro allI impI)
        fix j assume ji: "j < i"
        then have "j < length ?orig" using f(1) by simp
        then show "nth_js ?orig j = nth_js ?ns j" using f(3) ji by (simp add: n)
      qed
      from r u Some p have "nextGamepadInputHandler ext pads i ty ?s2 = Inr (s', calls)" by simp
      from nextGamepad_calls [OF this] show ?thesis
      proof
        assume "calls = []"
        then show ?thesis by simp
      next
        assume "\<exists>cb. calls = [(cb, i, ty)]"
        then obtain cb where "calls = [(cb, i, ty)]" by blast
        with f(1,2,4) g show ?thesis by (auto simp: n)
      qed
    qed
  qed
  have D: "\<forall>j names b. j < length ?ns \<and> nth_js ?ns j \<noteq> nth_js ?orig j \<and>
          map_of (gamepadMapper s) (show_nat j) = Some names \<and> b \<in> set names \<and>
          (\<forall>j' names'. j < j' \<and> j' < length ?ns \<and> nth_js ?ns j' \<noteq> nth_js ?orig j' \<and>
             map_of (gamepadMapper s) (show_nat j') = Some names' \<longrightarrow> b \<notin> set names') \<longrightarrow>
        map_of (currentState ?s2) b = Some (nth_js ?ns j)"
  proof (intro allI impI)
    fix j names b
    assume h: "j < length ?ns \<and> nth_js ?ns j \<noteq> nth_js ?orig j \<and>
          map_of (gamepadMapper s) (show_nat j) = Some names \<and> b \<in> set names \<and>
          (\<forall>j' names'. j < j' \<and> j' < length ?ns \<and> nth_js ?ns j' \<noteq> nth_js ?orig j' \<and>
             map_of (gamepadMapper s) (show_nat j') = Some names' \<longrightarrow> b \<notin> set names')"
    have c: "currentState ?s2 = fold (transition_step (gamepadMapper s) ?orig ?ns) [0..<length ?ns] (currentState s)"
      by (simp add: originalUpdateGamepadState_def apply_transitions_def)
    from h have h1: "j < length ?ns" and h2: "nth_js ?ns j \<noteq> nth_js ?orig j"
      and h3: "map_of (gamepadMapper s) (show_nat j) = Some names" and h4: "b \<in> set names"
      and h5: "\<forall>j' names'. j < j' \<and> j' < length ?ns \<and> nth_js ?ns j' \<noteq> nth_js ?orig j' \<and>
             map_of (gamepadMapper s) (show_nat j') = Some names' \<longrightarrow> b \<notin> set names'"
      by blast+
    show "map_of (currentState ?s2) b = Some (nth_js ?ns j)"
      unfolding c by (rule apply_transitions_upto [OF h1 h2 h3 h4 h5])
  qed
  from A B C D show ?thesis by (intro conjI)
qed

text \<open>
  The buttons 1 and 3 of the polled gamepad go down in the same frame: the handler gets
  the press of button 1, and \<open>menu\<close>, mapped to button 3, is held all the same.
\<close>

theorem first_transition_wins_witness:
  "activeGamepadIndex polled_state =
     Some (pad_index (example_pad ([False, True, False, True] @ replicate 12 False))) \<and>
   updateGamepadState idle_externals [] (example_pad ([False, True, False, True] @ replicate 12 False))
       polled_state =
     nextGamepadInputHandler idle_externals [] 1 Press
       (originalUpdateGamepadState (example_pad ([False, True, False, True] @ replicate 12 False))
          polled_state) \<and>
   map_of (currentState (originalUpdateGamepadState
       (example_pad ([False, True, False, True] @ replicate 12 False)) polled_state)) ''menu'' =
     Some (Some True)"
proof -
  let ?gp = "example_pad ([False, True, False, True] @ replicate 12 False)"
  have i0: "pad_index ?gp = 0" by (simp add: example_pad_def)
  have act: "activeGamepadIndex polled_state = Some (pad_index ?gp)" by code_simp
  have orig: "stateOf polled_state (pad_index ?gp) = replicate 16 (Some False)" by code_simp
  have ns: "newState ?gp = [Some False, Some True, Some False, Some True] @ replicate 12 (Some False)"
    by code_simp
  have gm: "map_of (gamepadMapper polled_state) (show_nat 3) = Some [''menu'']" by code_simp
  note t = first_transition_wins [OF act, of idle_externals "[]"]
  have a: "1 < length (stateOf polled_state (pad_index ?gp)) \<and>
          nth_js (stateOf polled_state (pad_index ?gp)) 1 \<noteq> nth_js (newState ?gp) 1 \<and>
          (\<forall>j<1. nth_js (stateOf polled_state (pad_index ?gp)) j = nth_js (newState ?gp) j)"
    unfolding orig ns by (simp add: nth_js_def)
  have later: "\<And>j'. 3 < j' \<Longrightarrow> j' < 16 \<Longrightarrow>
      nth_js ([Some False, Some True, Some False, Some True] @ replicate 12 (Some False)) j' =
      nth_js (replicate 16 (Some False)) j'"
  proof -
    fix j' :: nat
    assume h: "3 < j'" "j' < 16"
    then have "j' - 4 < 12" by arith
    then have "replicate 12 (Some False) ! (j' - 4) = Some False" by (rule nth_replicate)
    moreover have "j' - Suc (Suc (Suc (Suc 0))) = j' - 4" by simp
    ultimately show "nth_js ([Some False, Some True, Some False, Some True] @ replicate 12 (Some False)) j' =
      nth_js (replicate 16 (Some False)) j'"
      using h by (simp add: nth_js_def nth_append nth_Cons')
  qed
  have d1: "3 < length (newState ?gp)" unfolding ns by simp
  have d2: "nth_js (newState ?gp) 3 \<noteq> nth_js (stateOf polled_state (pad_index ?gp)) 3"
    unfolding orig ns by (simp add: nth_js_def)
  have d5: "\<forall>j' names'. 3 < j' \<and> j' < length (newState ?gp) \<and>
             nth_js (newState ?gp) j' \<noteq> nth_js (stateOf polled_state (pad_index ?gp)) j' \<and>
             map_of (gamepadMapper polled_state) (show_nat j') = Some names' \<longrightarrow>
             ''menu'' \<notin> set names'"
  proof (intro allI impI)
    fix j' names'
    assume h: "3 < j' \<and> j' < length (newState ?gp) \<and>
             nth_js (newState ?gp) j' \<noteq> nth_js (stateOf polled_state (pad_index ?gp)) j' \<and>
             map_of (gamepadMapper polled_state) (show_nat j') = Some names'"
    then have "3 < j'" and "j' < 16" unfolding ns by simp_all
    from later [OF this] h show "''menu'' \<notin> set names'" unfolding orig ns by simp
  qed
  have d: "3 < length (newState ?gp) \<and>
          nth_js (newState ?gp) 3 \<noteq> nth_js (stateOf polled_state (pad_index ?gp)) 3 \<and>
          map_of (gamepadMapper polled_state) (show_nat 3) = Some [''menu''] \<and>
          ''menu'' \<in> set [''menu''] \<and>
          (\<forall>j' names'. 3 < j' \<and> j' < length (newState ?gp) \<and>
             nth_js (newState ?gp) j' \<noteq> nth_js (stateOf polled_state (pad_index ?gp)) j' \<and>
             map_of (gamepadMapper polled_state) (show_nat j') = Some names' \<longrightarrow>
             ''menu'' \<notin> set names')"
    using d1 d2 gm d5 by (intro conjI) simp_all
  from t [THEN conjunct1, rule_format, OF a]
  have 1: "updateGamepadState idle_externals [] ?gp polled_state =
     nextGamepadInputHandler idle_externals [] 1 Press (originalUpdateGamepadState ?gp polled_state)"
    unfolding ns by (simp add: nth_js_def)
  from t [THEN conjunct2, THEN conjunct2, THEN conjunct2, rule_format, OF d]
  have 2: "map_of (currentState (originalUpdateGamepadState ?gp polled_state)) ''menu'' = Some (Some True)"
    unfolding ns by (simp add: nth_js_def)
  from act 1 2 show ?thesis by (intro conjI)
qed

section \<open>Repeat timing\<close>

lemma truthy_update:
  "truthy (AList.update k v m) n = (if n = k then v = Some True else truthy m n)"
  by (simp add: truthy_def update_conv')

lemma truthy_set_names:
  "truthy (set_names ns v cs) n = (if n \<in> set ns then v = Some True else truthy cs n)"
  by (simp add: truthy_def set_names_lookup)

lemma set_names_distinct:
  "distinct (map fst cs) \<Longrightarrow> distinct (map fst (set_names ns v cs))"
  unfolding set_names_def
  by (induction ns arbitrary: cs) (auto simp: distinct_update)

lemma truthy_mem:
  "distinct (map fst cs) \<Longrightarrow> truthy cs n \<longleftrightarrow> (n, Some True) \<in> set cs"
  by (simp add: truthy_def)

text \<open>The loop of the frame update over distinct names.\<close>

lemma fold_press_step:
  "distinct (map fst ps) \<Longrightarrow>
   fold press_step ps (latest, pt, prev) =
     (latest @ map fst (filter (\<lambda>(n, v). v = Some True \<and> \<not> truthy prev n) ps),
      (if filter (\<lambda>(n, v). v = Some True \<and> \<not> truthy prev n) ps = [] then pt else 0),
      fold (\<lambda>(n, v) m. AList.update n v m) ps prev)"
proof (induction ps arbitrary: latest pt prev)
  case Nil
  then show ?case by simp
next
  case (Cons p ps)
  obtain n v where p: "p = (n, v)" by (cases p)
  from Cons.prems p have d: "distinct (map fst ps)" and nn: "n \<notin> fst ` set ps" by auto
  have same: "filter (\<lambda>(m, w). w = Some True \<and> \<not> truthy (AList.update n v prev) m) ps =
      filter (\<lambda>(m, w). w = Some True \<and> \<not> truthy prev m) ps"
  proof (rule filter_cong [OF refl])
    fix x assume x: "x \<in> set ps"
    obtain m w where xm: "x = (m, w)" by (cases x)
    with x nn have "m \<noteq> n" by force
    then show "(case x of (m, w) \<Rightarrow> w = Some True \<and> \<not> truthy (AList.update n v prev) m) =
        (case x of (m, w) \<Rightarrow> w = Some True \<and> \<not> truthy prev m)"
      by (simp add: xm truthy_update)
  qed
  show ?case
  proof (cases "v = Some True \<and> \<not> truthy prev n")
    case True
    then have "fold press_step (p # ps) (latest, pt, prev) =
        fold press_step ps (latest @ [n], 0, AList.update n v prev)"
      by (simp add: p press_step_def)
    also have "\<dots> = ((latest @ [n]) @ map fst (filter (\<lambda>(m, w). w = Some True \<and> \<not> truthy prev m) ps),
        0, fold (\<lambda>(n, v) m. AList.update n v m) ps (AList.update n v prev))"
      by (simp add: Cons.IH [OF d] same)
    finally show ?thesis using True by (simp add: p)
  next
    case False
    then have "fold press_step (p # ps) (latest, pt, prev) =
        fold press_step ps (latest, pt, AList.update n v prev)"
      by (auto simp: p press_step_def)
    also have "\<dots> = (latest @ map fst (filter (\<lambda>(m, w). w = Some True \<and> \<not> truthy prev m) ps),
        (if filter (\<lambda>(m, w). w = Some True \<and> \<not> truthy prev m) ps = [] then pt else 0),
        fold (\<lambda>(n, v) m. AList.update n v m) ps (AList.update n v prev))"
      by (simp add: Cons.IH [OF d] same)
    finally show ?thesis using False by (auto simp: p)
  qed
qed

lemma fold_update_self:
  "distinct (map fst ps) \<Longrightarrow>
   map_of (fold (\<lambda>(n, v) m. AList.update n v m) ps prev) k =
     (case map_of ps k of Some v \<Rightarrow> Some v | None \<Rightarrow> map_of prev k)"
  using fold_update_lookup [of ps "\<lambda>v. v" prev k] by simp

lemma truthy_fold_update:
  "distinct (map fst ps) \<Longrightarrow> truthy ps k \<Longrightarrow>
   truthy (fold (\<lambda>(n, v) m. AList.update n v m) ps prev) k"
  by (simp add: truthy_def fold_update_self)

lemma poll_none [simp]: "pollGamepads ext pads [] s = Inr (s, [])"
  by simp

lemma truthy_set_all_false:
  "truthy (set_all_false ks st) n = (n \<notin> set ks \<and> truthy st n)"
  unfolding set_all_false_def
  by (induction ks arbitrary: st) (auto simp: truthy_update)

lemma set_all_false_distinct:
  "distinct (map fst st) \<Longrightarrow> distinct (map fst (set_all_false ks st))"
  unfolding set_all_false_def
  by (induction ks arbitrary: st) (auto simp: distinct_update)


lemma clear_distinct:
  "distinct (map fst (currentState s)) \<Longrightarrow> distinct (map fst (currentState (clear s)))"
  by (simp add: clear_def Let_def set_all_false_distinct)

lemma clear_fields [simp]:
  "keyMapper (clear s) = keyMapper s" "gamepadMapper (clear s) = gamepadMapper s"
  "previousState (clear s) = previousState s" "virtualButton (clear s) = None"
  "latestButton (clear s) = None" "pressedTime (clear s) = 0"
  by (simp_all add: clear_def Let_def)










section \<open>Names that nothing binds\<close>

lemma set_update_subset: "set (AList.update k v al) \<subseteq> insert (k, v) (set al)"
  by (induction al) auto

lemma names_within_update:
  "names_within K m \<Longrightarrow> set ns \<subseteq> K \<Longrightarrow> names_within K (AList.update k ns m)"
  using set_update_subset [of k ns m] by (fastforce simp: names_within_def)

lemma names_within_lookup:
  "names_within K m \<Longrightarrow> map_of m k = Some ns \<Longrightarrow> set ns \<subseteq> K"
  by (auto simp: names_within_def dest!: map_of_SomeD)

lemma names_within_keyboard_loop:
  "names_within K m \<Longrightarrow> fst ` set t \<subseteq> K \<Longrightarrow>
   names_within K (fold (\<lambda>(i, input) m. AList.update (key_of (keyboardButton input)) [i] m) t m)"
proof (induction t arbitrary: m)
  case Nil
  then show ?case by simp
next
  case (Cons p t)
  obtain i input where p: "p = (i, input)" by (cases p)
  from Cons.prems p have i: "i \<in> K" and t: "fst ` set t \<subseteq> K" by auto
  have "names_within K (AList.update (key_of (keyboardButton input)) [i] m)"
    using Cons.prems(1) i by (intro names_within_update) simp_all
  from Cons.IH [OF this t] show ?case by (simp add: p)
qed

lemma names_within_push:
  assumes m: "names_within K m" and i: "i \<in> K"
  shows "names_within K (push_name k i m)"
proof (cases "map_of m k")
  case None
  then show ?thesis using m i by (simp add: push_name_def names_within_update)
next
  case (Some ns)
  from names_within_lookup [OF m Some] i have "set (ns @ [i]) \<subseteq> K" by simp
  then show ?thesis using m Some by (simp add: push_name_def names_within_update)
qed

lemma names_within_gamepad_loop:
  "names_within K m \<Longrightarrow> fst ` set t \<subseteq> K \<Longrightarrow>
   names_within K (fold (\<lambda>(i, input) m. push_name (key_of (gamepadButton input)) i m) t m)"
proof (induction t arbitrary: m)
  case Nil
  then show ?case by simp
next
  case (Cons p t)
  obtain i input where p: "p = (i, input)" by (cases p)
  from Cons.prems p have i: "i \<in> K" and t: "fst ` set t \<subseteq> K" by auto
  have "names_within K (push_name (key_of (gamepadButton input)) i m)"
    using Cons.prems(1) i by (rule names_within_push)
  from Cons.IH [OF this t] show ?case by (simp add: p)
qed

lemma names_within_merge_base_aux:
  "names_within K m \<Longrightarrow>
   names_within K (fold (\<lambda>b m'. if map_of m' (show_nat b) = None then AList.update (show_nat b) [] m' else m') bs m)"
proof (induction bs arbitrary: m)
  case Nil
  then show ?case by simp
next
  case (Cons b bs)
  have "names_within K (if map_of m (show_nat b) = None then AList.update (show_nat b) [] m else m)"
    using Cons.prems by (simp add: names_within_update)
  from Cons.IH [OF this] show ?case by simp
qed

lemma names_within_merge_base: "names_within K m \<Longrightarrow> names_within K (merge_base m)"
  unfolding merge_base_def by (rule names_within_merge_base_aux)

lemma names_within_add_static:
  "names_within K m \<Longrightarrow> n \<in> K \<Longrightarrow> names_within K (add_static k n m)"
  by (auto simp: add_static_def intro: names_within_update)

lemma alias_in_bound:
  "''static_tab'' \<in> bound_names" "''static_escape'' \<in> bound_names" "''cancel'' \<in> bound_names"
  "''confirm'' \<in> bound_names" "''ok'' \<in> bound_names" "''shift'' \<in> bound_names"
  "''pageup'' \<in> bound_names" "''pagedown'' \<in> bound_names"
  by (simp_all add: bound_names_def alias_names_def)

lemma keys_in_bound: "keys_ok t \<Longrightarrow> fst ` set t \<subseteq> bound_names"
proof -
  assume "keys_ok t"
  then have "set (map fst t) = set (map fst default_inputs)" by (simp only: keys_ok_def)
  then show ?thesis by (simp add: bound_names_def)
qed

lemma newKeyboardMap_names:
  assumes k: "keys_ok t" and r: "newKeyboardMap t = Inr m"
  shows "names_within bound_names m"
proof -
  have k0: "names_within bound_names (keyboard_loop t)"
    unfolding keyboard_loop_def
    by (rule names_within_keyboard_loop) (simp_all add: names_within_def keys_in_bound [OF k])
  have k2: "names_within bound_names
      (add_static ''Escape'' ''static_escape'' (add_static ''Tab'' ''static_tab'' (keyboard_loop t)))"
    by (intro names_within_add_static k0 alias_in_bound)
  from r show ?thesis
    by (auto simp: newKeyboardMap_def err_bind_def Let_def split: sum.splits
        intro!: names_within_update k2 alias_in_bound)
qed

lemma newGamepadMap_names:
  assumes k: "keys_ok t" and r: "newGamepadMap t = Inr m"
  shows "names_within bound_names m"
proof -
  have g0: "names_within bound_names (gamepad_loop t)"
    unfolding gamepad_loop_def
    by (rule names_within_gamepad_loop) (simp_all add: names_within_def keys_in_bound [OF k])
  have g1: "names_within bound_names (merge_base (gamepad_loop t))"
    by (rule names_within_merge_base [OF g0])
  from r show ?thesis
    by (auto simp: newGamepadMap_def err_bind_def Let_def split: sum.splits
        intro!: names_within_update g1 alias_in_bound)
qed

lemma truthy_key: "truthy st n \<Longrightarrow> n \<in> fst ` set st"
  by (auto simp: truthy_def dest!: map_of_SomeD intro: rev_image_eqI)

lemma truthy_clear_none: "\<not> truthy (currentState (clear s)) n"
  using truthy_key [of "currentState s" n]
  by (auto simp: clear_def Let_def truthy_set_all_false)

lemma rebuild_unarmed:
  assumes k: "keys_ok (inputs s)" and d: "distinct (map fst (currentState s))"
    and kc: "keyboardInputCallback s = None" and gc: "gamepadInputCallback s = None"
  shows "\<exists>s'. rebuildButtonMapper s = Inr s' \<and> unarmed_inv s' \<and> inputs s' = inputs s"
proof -
  obtain km where km: "newKeyboardMap (inputs s) = Inr km" using newKeyboardMap_ok [OF k] by blast
  obtain gm where gm: "newGamepadMap (inputs s) = Inr gm" using newGamepadMap_ok [OF k] by blast
  let ?s' = "clear (s\<lparr>keyMapper := km, gamepadMapper := gm\<rparr>)"
  have r: "rebuildButtonMapper s = Inr ?s'"
    by (simp add: rebuildButtonMapper_def err_bind_def km gm)
  have dd: "distinct (map fst (currentState ?s'))"
    using d by (intro clear_distinct) simp
  have "unarmed_inv ?s'"
    unfolding unarmed_inv_def
    using k newKeyboardMap_names [OF k km] newGamepadMap_names [OF k gm] dd kc gc
    by (simp add: truthy_clear_none)
  with r show ?thesis by (intro exI [of _ ?s']) simp
qed

lemma unarmed_fields:
  assumes "unarmed_inv s"
  shows "keys_ok (inputs s)" "distinct (map fst (currentState s))"
    "keyboardInputCallback s = None" "gamepadInputCallback s = None" "virtualButton s = None"
    "names_within bound_names (keyMapper s)" "names_within bound_names (gamepadMapper s)"
  using assms by (simp_all add: unarmed_inv_def)

lemma setControlButton_unarmed:
  assumes u: "unarmed_inv s"
  shows "\<exists>s'. setControlButton c v ty s = Inr s' \<and> unarmed_inv s'"
proof (cases "map_of (inputs s) c")
  case None
  then show ?thesis using u by (simp add: setControlButton_def)
next
  case (Some cur)
  let ?s1 = "s\<lparr>inputs := rebind_table c v ty cur (inputs s)\<rparr>"
  have "keys_ok (inputs ?s1)"
    using unarmed_fields(1) [OF u] by (simp add: keys_ok_def map_fst_rebind_table)
  from rebuild_unarmed [OF this] unarmed_fields(2,3,4) [OF u]
  show ?thesis by (auto simp: setControlButton_def Some)
qed

lemma map_keys_same: "map (fst \<circ> (\<lambda>(i, input). (i, g input))) t = map fst t"
  by (induction t) auto

lemma resetMap_unarmed:
  assumes u: "unarmed_inv s"
  shows "\<exists>s'. resetMap s = Inr s' \<and> unarmed_inv s'"
proof -
  let ?t = "map (\<lambda>(i, input). (i, input\<lparr>keyboardButton := defaultKeyboardButton input,
                                          gamepadButton := defaultGamepButton input\<rparr>)) (inputs s)"
  have "keys_ok (inputs (s\<lparr>inputs := ?t\<rparr>))"
    using unarmed_fields(1) [OF u] by (simp add: keys_ok_def map_keys_same)
  from rebuild_unarmed [OF this] unarmed_fields(2,3,4) [OF u]
  show ?thesis by (auto simp: resetMap_def)
qed

lemma initial_unarmed: "\<exists>s0. initial_state = Inr s0 \<and> unarmed_inv s0"
proof -
  have "keys_ok (inputs blank_state)" "distinct (map fst (currentState blank_state))"
    "keyboardInputCallback blank_state = None" "gamepadInputCallback blank_state = None"
    by (simp_all add: blank_state_def keys_ok_def)
  from rebuild_unarmed [OF this] show ?thesis by (auto simp: initial_state_def)
qed

lemma clear_unarmed: "unarmed_inv s \<Longrightarrow> unarmed_inv (clear s)"
  by (simp add: unarmed_inv_def truthy_clear_none clear_distinct)

lemma set_names_unarmed:
  assumes u: "unarmed_inv s" and ns: "set ns \<subseteq> bound_names"
  shows "unarmed_inv (s\<lparr>currentState := set_names ns v (currentState s)\<rparr>)"
  using u ns by (auto simp: unarmed_inv_def truthy_set_names set_names_distinct split: if_splits)

lemma onKeyDown_unarmed: "unarmed_inv s \<Longrightarrow> unarmed_inv (onKeyDown e s)"
proof -
  assume u: "unarmed_inv s"
  let ?s1 = "if ev_keyCode e = 144 then clear s else s"
  have u1: "unarmed_inv ?s1" using u by (simp add: clear_unarmed)
  show ?thesis
  proof (cases "map_of (keyMapper ?s1) (event_key e)")
    case None
    then show ?thesis using u1 by (simp add: onKeyDown_def Let_def)
  next
    case (Some ns)
    from names_within_lookup [OF unarmed_fields(6) [OF u1] Some]
    have "unarmed_inv (?s1\<lparr>currentState := set_names ns (Some True) (currentState ?s1)\<rparr>)"
      by (rule set_names_unarmed [OF u1])
    then show ?thesis using Some by (simp add: onKeyDown_def Let_def)
  qed
qed

lemma onKeyUp_unarmed: "unarmed_inv s \<Longrightarrow> unarmed_inv (onKeyUp e s)"
proof -
  assume u: "unarmed_inv s"
  show ?thesis
  proof (cases "map_of (keyMapper s) (event_key e)")
    case None
    then show ?thesis using u by (simp add: onKeyUp_def)
  next
    case (Some ns)
    from names_within_lookup [OF unarmed_fields(6) [OF u] Some]
    have "unarmed_inv (s\<lparr>currentState := set_names ns (Some False) (currentState s)\<rparr>)"
      by (rule set_names_unarmed [OF u])
    then show ?thesis using Some by (simp add: onKeyUp_def)
  qed
qed

lemma keydown_unarmed:
  assumes u: "unarmed_inv s"
  shows "\<exists>s'. keydown ext e s = Inr (s', []) \<and> unarmed_inv s'"
proof -
  have u1: "unarmed_inv (onKeyDown e s)" using u by (rule onKeyDown_unarmed)
  have "keydown ext e s = Inr ((onKeyDown e s)\<lparr>lastInputDevice := Keyboard\<rparr>, [])"
    unfolding keydown_def by (rule nextKeyboard_idle [OF unarmed_fields(3) [OF u1]])
  moreover have "unarmed_inv ((onKeyDown e s)\<lparr>lastInputDevice := Keyboard\<rparr>)"
    using u1 by (simp add: unarmed_inv_def)
  ultimately show ?thesis by blast
qed

lemma updateActiveGamepad_unarmed:
  "unarmed_inv s \<Longrightarrow> unarmed_inv (updateActiveGamepad pads s)"
  by (simp add: unarmed_inv_def updateActiveGamepad_def Let_def split: option.splits)

lemma transition_step_props:
  assumes gm: "names_within bound_names gm"
    and d: "distinct (map fst cs)" and t: "\<forall>n. truthy cs n \<longrightarrow> n \<in> bound_names"
  shows "distinct (map fst (transition_step gm ls ns j cs)) \<and>
     (\<forall>n. truthy (transition_step gm ls ns j cs) n \<longrightarrow> n \<in> bound_names)"
proof (cases "nth_js ns j \<noteq> nth_js ls j")
  case False
  then show ?thesis using d t by (simp add: transition_step_def)
next
  case True
  show ?thesis
  proof (cases "map_of gm (show_nat j)")
    case None
    then show ?thesis using d t by (simp add: transition_step_def)
  next
    case (Some names)
    from names_within_lookup [OF gm Some] have s: "set names \<subseteq> bound_names" .
    have "transition_step gm ls ns j cs = set_names names (nth_js ns j) cs"
      using True Some by (simp add: transition_step_def)
    then show ?thesis using d t s
      by (auto simp: set_names_distinct truthy_set_names split: if_splits)
  qed
qed

lemma apply_transitions_props:
  assumes gm: "names_within bound_names gm"
  shows "distinct (map fst cs) \<Longrightarrow> (\<forall>n. truthy cs n \<longrightarrow> n \<in> bound_names) \<Longrightarrow>
     distinct (map fst (fold (transition_step gm ls ns) js cs)) \<and>
     (\<forall>n. truthy (fold (transition_step gm ls ns) js cs) n \<longrightarrow> n \<in> bound_names)"
proof (induction js arbitrary: cs)
  case Nil
  then show ?case by simp
next
  case (Cons j js)
  from transition_step_props [OF gm Cons.prems, of ls ns j]
  have "distinct (map fst (transition_step gm ls ns j cs))"
    "\<forall>n. truthy (transition_step gm ls ns j cs) n \<longrightarrow> n \<in> bound_names" by simp_all
  from Cons.IH [OF this] show ?case by simp
qed

lemma originalUpdate_unarmed:
  assumes u: "unarmed_inv s"
  shows "unarmed_inv (originalUpdateGamepadState gp s)"
proof -
  from u have d: "distinct (map fst (currentState s))"
    and t: "\<forall>n. truthy (currentState s) n \<longrightarrow> n \<in> bound_names"
    by (simp_all add: unarmed_inv_def)
  from apply_transitions_props [OF unarmed_fields(7) [OF u] d t]
  show ?thesis using u
    by (simp add: unarmed_inv_def originalUpdateGamepadState_def apply_transitions_def)
qed

lemma updateGamepadState_unarmed:
  assumes u: "unarmed_inv s"
  shows "\<exists>s'. updateGamepadState ext pads gp s = Inr (s', []) \<and> unarmed_inv s'"
proof -
  let ?s1 = "if activeGamepadIndex s = None then updateActiveGamepad pads s else s"
  let ?s2 = "if Some (pad_index gp) = activeGamepadIndex ?s1
             then originalUpdateGamepadState gp ?s1 else ?s1"
  have u1: "unarmed_inv ?s1" using u by (simp add: updateActiveGamepad_unarmed)
  have u2: "unarmed_inv ?s2" using u1 by (simp add: originalUpdate_unarmed)
  have idle: "\<And>i ty. \<exists>s'. nextGamepadInputHandler ext pads i ty ?s2 = Inr (s', []) \<and> unarmed_inv s'"
  proof -
    fix i ty
    let ?s3 = "if lastInputDevice ?s2 \<noteq> Gamepad
               then (updateActiveGamepad pads ?s2)\<lparr>lastInputDevice := Gamepad\<rparr> else ?s2"
    have "nextGamepadInputHandler ext pads i ty ?s2 = Inr (?s3, [])"
      by (rule nextGamepad_idle [OF unarmed_fields(4) [OF u2]])
    moreover have "unarmed_inv ((updateActiveGamepad pads ?s2)\<lparr>lastInputDevice := Gamepad\<rparr>)"
      using updateActiveGamepad_unarmed [OF u2, of pads] by (simp add: unarmed_inv_def)
    then have "unarmed_inv ?s3" using u2 by presburger
    ultimately show "\<exists>s'. nextGamepadInputHandler ext pads i ty ?s2 = Inr (s', []) \<and> unarmed_inv s'"
      by blast
  qed
  have e: "updateGamepadState ext pads gp s =
      (case find_transition (stateOf s (pad_index gp)) (stateOf ?s2 (pad_index gp)) 0 of
         None \<Rightarrow> Inr (?s2, [])
       | Some (i, ty) \<Rightarrow> nextGamepadInputHandler ext pads i ty ?s2)"
    by (simp add: updateGamepadState_def Let_def)
  show ?thesis
  proof (cases "find_transition (stateOf s (pad_index gp)) (stateOf ?s2 (pad_index gp)) 0")
    case None
    then show ?thesis using e u2 by auto
  next
    case (Some p)
    obtain i ty where "p = (i, ty)" by (cases p)
    with Some e idle [of i ty] show ?thesis by auto
  qed
qed

lemma pollGamepads_unarmed:
  "unarmed_inv s \<Longrightarrow> \<exists>s'. pollGamepads ext pads gs s = Inr (s', []) \<and> unarmed_inv s'"
proof (induction gs arbitrary: s)
  case Nil
  then show ?case by simp
next
  case (Cons g gs)
  show ?case
  proof (cases g)
    case None
    then show ?thesis using Cons.IH [OF Cons.prems] by simp
  next
    case (Some gp)
    show ?thesis
    proof (cases "pad_connected gp")
      case False
      then show ?thesis using Some Cons.IH [OF Cons.prems] by simp
    next
      case True
      from updateGamepadState_unarmed [OF Cons.prems, of ext pads gp] obtain s1 where
        r1: "updateGamepadState ext pads gp s = Inr (s1, [])" and u1: "unarmed_inv s1" by blast
      from Cons.IH [OF u1] obtain s2 where
        r2: "pollGamepads ext pads gs s1 = Inr (s2, [])" and u2: "unarmed_inv s2" by blast
      show ?thesis using Some True r1 r2 u2 by (simp add: err_bind_def)
    qed
  qed
qed

lemma track_presses_unarmed:
  assumes u: "unarmed_inv s"
  shows "unarmed_inv (track_presses s) \<and> latestButton (track_presses s) \<noteq> None"
proof -
  from u have d: "distinct (map fst (currentState s))"
    and t: "\<forall>n. truthy (currentState s) n \<longrightarrow> n \<in> bound_names"
    and l: "\<forall>l. latestButton s = Some l \<longrightarrow> set l \<subseteq> bound_names"
    and vb: "virtualButton s = None"
    by (simp_all add: unarmed_inv_def)
  define latest0 where "latest0 = (case latestButton s of None \<Rightarrow> [] | Some l \<Rightarrow> l)"
  define held where "held = (latest0 \<noteq> [] \<and> truthy (currentState s) (hd latest0))"
  define latest1 where "latest1 = (if held then latest0 else [])"
  define pt1 where "pt1 = (if held then Suc (pressedTime s) else pressedTime s)"
  define pushed where
    "pushed = map fst (filter (\<lambda>(n, v). v = Some True \<and> \<not> truthy (previousState s) n) (currentState s))"
  have l0: "set latest0 \<subseteq> bound_names"
    using l by (cases "latestButton s") (simp_all add: latest0_def)
  then have l1: "set latest1 \<subseteq> bound_names" by (cases held) (simp_all add: latest1_def)
  have pu: "set pushed \<subseteq> bound_names"
  proof
    fix n assume "n \<in> set pushed"
    then have "(n, Some True) \<in> set (currentState s)" by (auto simp: pushed_def)
    then have "truthy (currentState s) n" by (simp add: truthy_mem [OF d])
    with t show "n \<in> bound_names" by simp
  qed
  have acc: "fst (fold press_step (currentState s) (latest1, pt1, previousState s)) = latest1 @ pushed"
    by (simp add: fold_press_step [OF d] pushed_def)
  have lb: "latestButton (track_presses s) = Some (latest1 @ pushed)"
    using vb acc
    by (simp add: track_presses_def Let_def latest0_def [symmetric] held_def [symmetric]
        latest1_def [symmetric] pt1_def [symmetric])
  have same: "currentState (track_presses s) = currentState s" "inputs (track_presses s) = inputs s"
    "keyMapper (track_presses s) = keyMapper s" "gamepadMapper (track_presses s) = gamepadMapper s"
    "keyboardInputCallback (track_presses s) = keyboardInputCallback s"
    "gamepadInputCallback (track_presses s) = gamepadInputCallback s"
    by (simp_all add: track_presses_def Let_def)
  have v: "virtualButton (track_presses s) = None"
    using vb by (simp add: track_presses_def Let_def)
  show ?thesis
    using u l1 pu unfolding unarmed_inv_def same lb v by simp
qed

lemma failsafe_reset_unarmed:
  assumes u: "unarmed_inv s"
  shows "\<exists>s'. failsafe_reset s = Inr s' \<and> unarmed_inv s' \<and>
     (latestButton s' = latestButton s \<or> latestButton s' = None)"
proof -
  let ?c = "(isVeryLongPressed s ''escape'' \<or> isVeryLongPressed s ''static_escape'') \<and>
      (isVeryLongPressed s ''tab'' \<or> isVeryLongPressed s ''static_tab'') \<and> \<not> resetMapFlag s"
  show ?thesis
  proof (cases ?c)
    case True
    from resetMap_unarmed [OF u] obtain s3 where r: "resetMap s = Inr s3" and u3: "unarmed_inv s3"
      by blast
    have "failsafe_reset s = Inr (s3\<lparr>resetMapFlag := True\<rparr>)"
      using True r by (simp add: failsafe_reset_def Let_def err_bind_def)
    moreover have "unarmed_inv (s3\<lparr>resetMapFlag := True\<rparr>)" using u3 by (simp add: unarmed_inv_def)
    moreover have "latestButton s3 = None"
      using r rebuild_ok [of "s\<lparr>inputs := map (\<lambda>(i, input). (i, input\<lparr>keyboardButton := defaultKeyboardButton input,
                                          gamepadButton := defaultGamepButton input\<rparr>)) (inputs s)\<rparr>"]
        unarmed_fields(1) [OF u]
      by (auto simp: resetMap_def keys_ok_def map_keys_same)
    ultimately show ?thesis by simp
  next
    case False
    then have "failsafe_reset s = Inr (s\<lparr>resetMapFlag := False\<rparr>) \<or> failsafe_reset s = Inr s"
      by (auto simp: failsafe_reset_def Let_def)
    moreover have "unarmed_inv (s\<lparr>resetMapFlag := False\<rparr>)" using u by (simp add: unarmed_inv_def)
    ultimately show ?thesis using u by auto
  qed
qed

lemma input_update_unarmed:
  assumes u: "unarmed_inv s"
  shows "\<exists>s'. input_update ext pads s = Inr (s', []) \<and> unarmed_inv s'"
proof -
  from pollGamepads_unarmed [OF u, of ext pads pads] obtain s1 where
    r1: "pollGamepads ext pads pads s = Inr (s1, [])" and u1: "unarmed_inv s1" by blast
  from track_presses_unarmed [OF u1] have u2: "unarmed_inv (track_presses s1)" by simp
  from failsafe_reset_unarmed [OF u2] obtain s3 where
    r3: "failsafe_reset (track_presses s1) = Inr s3" and u3: "unarmed_inv s3" by blast
  show ?thesis using r1 r3 u3 by (simp add: input_update_def err_bind_def)
qed

lemma step_unarmed:
  assumes u: "unarmed_inv s"
  shows "\<exists>s'. step ext e s = Inr s' \<and> unarmed_inv s'"
proof (cases e)
  case (KeyDown k)
  from keydown_unarmed [OF u, of ext k] show ?thesis by (auto simp: KeyDown err_bind_def)
next
  case (KeyUp k)
  then show ?thesis using onKeyUp_unarmed [OF u] by simp
next
  case (Frame pads)
  from input_update_unarmed [OF u, of ext pads] show ?thesis by (auto simp: Frame err_bind_def)
next
  case (Rebind c v ty)
  then show ?thesis using setControlButton_unarmed [OF u] by simp
next
  case ResetAll
  then show ?thesis using resetMap_unarmed [OF u] by simp
qed

lemma run_unarmed:
  "unarmed_inv s \<Longrightarrow> \<exists>s'. run ext es s = Inr s' \<and> unarmed_inv s'"
proof (induction es arbitrary: s)
  case Nil
  then show ?case by simp
next
  case (Cons e es)
  from step_unarmed [OF Cons.prems, of ext e] obtain s1 where
    r: "step ext e s = Inr s1" and u1: "unarmed_inv s1" by blast
  from Cons.IH [OF u1] show ?case by (simp add: r err_bind_def)
qed

lemma isTriggered_latest:
  assumes "\<not> esc ''escape''"
    and "latestButton s = Some l" and "name \<notin> set l" and "''escape'' \<notin> set l"
  shows "isTriggered esc s name = Some (Inr False)"
proof -
  have e: "isTriggered esc s ''escape'' = Some (Inr False)"
    by (simp add: isTriggered.simps [of esc s "''escape''"] triggered_now_def latest_contains_def
        assms err_bind_def)
  show ?thesis
    by (simp add: isTriggered.simps [of esc s name] e triggered_now_def latest_contains_def
        assms err_bind_def)
qed

lemma isRepeated_absent:
  assumes "\<not> esc ''escape''"
    and "latestButton s = Some l" and "name \<notin> set l" and "''escape'' \<notin> set l"
  shows "isRepeated esc s name = Some (Inr False)"
proof -
  have e: "isRepeated esc s ''escape'' = Some (Inr False)"
    by (simp add: isRepeated.simps [of esc s "''escape''"] repeated_now_def latest_contains_def
        assms err_bind_def)
  show ?thesis
    by (simp add: isRepeated.simps [of esc s name] e repeated_now_def latest_contains_def
        assms err_bind_def)
qed

lemma escape_unbound: "''escape'' \<notin> bound_names"
  by (simp add: bound_names_def alias_names_def default_keys)

text \<open>
  What the queries do for a name that nothing binds. Take any state reached from the
  initial state by key-down and key-up events, frame updates with any gamepads, rebinds
  and resets (all of them return normally; the engine's virtual clicks are not among the
  events), and any name that is neither a function of the table nor one of the names the
  lookup maps add (\<open>static_tab\<close>, \<open>static_escape\<close>, \<open>cancel\<close>, \<open>confirm\<close>, \<open>ok\<close>,
  \<open>shift\<close>, \<open>pageup\<close>, \<open>pagedown\<close>). Then \<open>isPressed\<close> of the name is false, and
  where \<open>_latestButton\<close> is an array \<open>isTriggered\<close> and \<open>isRepeated\<close> of the name
  return false, whatever names the engine takes as escape-compatible, the name
  \<open>escape\<close> left out. Where \<open>_latestButton\<close> is \<open>null\<close> they throw, as shown below.
\<close>

lemma unbound_name_not_held:
  assumes ec: "\<not> esc ''escape''"
  shows "\<exists>s0 s. initial_state = Inr s0 \<and> run ext events s0 = Inr s \<and>
     (\<forall>name. name \<notin> fst ` set (inputs s) \<union> set alias_names \<longrightarrow>
        \<not> isPressed s name \<and>
        (latestButton s \<noteq> None \<longrightarrow>
           isTriggered esc s name = Some (Inr False) \<and>
           isRepeated esc s name = Some (Inr False)))"
proof -
  from initial_unarmed obtain s0 where s0: "initial_state = Inr s0" and u0: "unarmed_inv s0"
    by blast
  from run_unarmed [OF u0, of ext events] obtain s where
    r: "run ext events s0 = Inr s" and u: "unarmed_inv s" by blast
  have keys: "fst ` set (inputs s) \<union> set alias_names = bound_names"
  proof -
    have "set (map fst (inputs s)) = set (map fst default_inputs)"
      using unarmed_fields(1) [OF u] by (simp only: keys_ok_def)
    then show ?thesis by (simp add: bound_names_def)
  qed
  have q: "\<forall>name. name \<notin> fst ` set (inputs s) \<union> set alias_names \<longrightarrow>
        \<not> isPressed s name \<and>
        (latestButton s \<noteq> None \<longrightarrow>
           isTriggered esc s name = Some (Inr False) \<and>
           isRepeated esc s name = Some (Inr False))"
  proof (intro allI impI)
    fix name
    assume "name \<notin> fst ` set (inputs s) \<union> set alias_names"
    then have nb: "name \<notin> bound_names" unfolding keys .
    from u have t: "\<forall>n. truthy (currentState s) n \<longrightarrow> n \<in> bound_names"
      and l: "\<forall>l. latestButton s = Some l \<longrightarrow> set l \<subseteq> bound_names"
      by (simp_all add: unarmed_inv_def)
    have p: "\<not> isPressed s name" using t nb by (auto simp: isPressed_def)
    have tr: "latestButton s \<noteq> None \<longrightarrow>
           isTriggered esc s name = Some (Inr False) \<and>
           isRepeated esc s name = Some (Inr False)"
    proof
      assume "latestButton s \<noteq> None"
      then obtain la where la: "latestButton s = Some la" by blast
      with l have sub: "set la \<subseteq> bound_names" by simp
      have a: "name \<notin> set la" using sub nb by blast
      have b: "''escape'' \<notin> set la" using sub escape_unbound by blast
      show "isTriggered esc s name = Some (Inr False) \<and>
           isRepeated esc s name = Some (Inr False)"
        using isTriggered_latest [where esc = esc, OF ec la a b]
          isRepeated_absent [where esc = esc, OF ec la a b] by simp
    qed
    from p tr show "\<not> isPressed s name \<and>
        (latestButton s \<noteq> None \<longrightarrow>
           isTriggered esc s name = Some (Inr False) \<and>
           isRepeated esc s name = Some (Inr False))" by simp
  qed
  from s0 r q show ?thesis by blast
qed

text \<open>
  The key \<open>Z\<close> goes down in the initial state and a frame passes; the name \<open>jump\<close> is
  bound to nothing.
\<close>

lemma unbound_name_not_held_example:
  "\<exists>s0 s. initial_state = Inr s0 \<and>
     run idle_externals [KeyDown \<lparr>ev_code = ''KeyZ'', ev_keyCode = 90, ev_which = 90\<rparr>, Frame []] s0 =
       Inr s \<and>
     ''jump'' \<notin> fst ` set (inputs s) \<union> set alias_names \<and> latestButton s \<noteq> None \<and>
     \<not> example_esc ''escape'' \<and>
     \<not> isPressed s ''jump'' \<and> isTriggered example_esc s ''jump'' = Some (Inr False) \<and>
     isRepeated example_esc s ''jump'' = Some (Inr False)"
proof -
  let ?es = "[KeyDown \<lparr>ev_code = ''KeyZ'', ev_keyCode = 90, ev_which = 90\<rparr>, Frame []]"
  have ec: "\<not> example_esc ''escape''" by (simp add: example_esc_def)
  from unbound_name_not_held [where esc = example_esc, OF ec, of idle_externals ?es] obtain s0 s where
    s0: "initial_state = Inr s0" and r: "run idle_externals ?es s0 = Inr s"
    and q: "\<forall>name. name \<notin> fst ` set (inputs s) \<union> set alias_names \<longrightarrow>
        \<not> isPressed s name \<and>
        (latestButton s \<noteq> None \<longrightarrow>
           isTriggered example_esc s name = Some (Inr False) \<and>
           isRepeated example_esc s name = Some (Inr False))" by blast
  have p0: "projr initial_state = s0" by (simp add: s0)
  have ps: "projr (run idle_externals ?es (projr initial_state)) = s" by (simp only: p0 r sum.sel)
  have "''jump'' \<notin> set (map fst (inputs (projr (run idle_externals ?es (projr initial_state))))) \<union>
      set alias_names" by code_simp
  then have a: "''jump'' \<notin> fst ` set (inputs s) \<union> set alias_names" unfolding ps by simp
  have "latestButton (projr (run idle_externals ?es (projr initial_state))) \<noteq> None" by code_simp
  then have b: "latestButton s \<noteq> None" unfolding ps .
  from q [rule_format, OF a] b
  have "\<not> isPressed s ''jump''" "isTriggered example_esc s ''jump'' = Some (Inr False)"
    "isRepeated example_esc s ''jump'' = Some (Inr False)" by simp_all
  with s0 r a b ec show ?thesis by blast
qed

text \<open>
  With \<open>_latestButton\<close> \<open>null\<close> both queries throw, for every name: the call
  \<open>this._latestButton.contains\<close> is reached on every path.
\<close>

lemma queries_throw:
  assumes "\<not> esc ''escape''" and "latestButton s = None"
  shows "isTriggered esc s name = Some (Inl TypeError)"
    and "isRepeated esc s name = Some (Inl TypeError)"
proof -
  have e: "isTriggered esc s ''escape'' = Some (Inl TypeError)"
    by (simp add: isTriggered.simps [of esc s "''escape''"] triggered_now_def latest_contains_def
        assms err_bind_def)
  show "isTriggered esc s name = Some (Inl TypeError)"
    by (simp add: isTriggered.simps [of esc s name] e triggered_now_def latest_contains_def
        assms err_bind_def)
  have e: "isRepeated esc s ''escape'' = Some (Inl TypeError)"
    by (simp add: isRepeated.simps [of esc s "''escape''"] repeated_now_def latest_contains_def
        assms err_bind_def)
  show "isRepeated esc s name = Some (Inl TypeError)"
    by (simp add: isRepeated.simps [of esc s name] e repeated_now_def latest_contains_def
        assms err_bind_def)
qed

text \<open>The failsafe does nothing before the pressed time reaches 300.\<close>

lemma failsafe_early:
  "pressedTime s < 300 \<Longrightarrow> failsafe_reset s = Inr (s\<lparr>resetMapFlag := False\<rparr>)"
  by (simp add: failsafe_reset_def Let_def isVeryLongPressed_def)

text \<open>The bookkeeping of a frame in which the first latest button stays held.\<close>

lemma held_track:
  assumes l: "latestButton s = Some l" and ne: "l \<noteq> []" and h: "truthy (currentState s) (hd l)"
    and pv: "\<forall>n. truthy (currentState s) n \<longrightarrow> truthy (previousState s) n"
    and d: "distinct (map fst (currentState s))"
    and vb: "virtualButton s = None"
  shows "track_presses s =
      s\<lparr>latestButton := Some l, pressedTime := Suc (pressedTime s),
        previousState := fold (\<lambda>(n, v) m. AList.update n v m) (currentState s) (previousState s),
        virtualButton := None\<rparr>"
proof -
  let ?P = "\<lambda>(n, v). v = Some True \<and> \<not> truthy (previousState s) n"
  let ?prev = "fold (\<lambda>(n, v) m. AList.update n v m) (currentState s) (previousState s)"
  have none: "filter ?P (currentState s) = []"
  proof -
    have "\<forall>x\<in>set (currentState s). \<not> ?P x"
    proof
      fix x assume x: "x \<in> set (currentState s)"
      obtain n v where xn: "x = (n, v)" by (cases x)
      show "\<not> ?P x"
      proof
        assume "?P x"
        then have v: "v = Some True" and np: "\<not> truthy (previousState s) n" by (simp_all add: xn)
        from x xn v have "truthy (currentState s) n" by (simp add: truthy_mem [OF d])
        with pv np show False by blast
      qed
    qed
    then show ?thesis by (simp add: filter_empty_conv)
  qed
  have acc: "fold press_step (currentState s) (l, Suc (pressedTime s), previousState s) =
      (l, Suc (pressedTime s), ?prev)"
    by (simp add: fold_press_step [OF d] none)
  show ?thesis
    using l ne h vb by (simp add: track_presses_def Let_def acc)
qed

lemma chord_step:
  assumes l: "latestButton s = Some l" and ne: "l \<noteq> []" and h: "truthy (currentState s) (hd l)"
    and pv: "\<forall>n. truthy (currentState s) n \<longrightarrow> truthy (previousState s) n"
    and d: "distinct (map fst (currentState s))"
    and vb: "virtualButton s = None"
    and early: "Suc (pressedTime s) < 300"
  shows "\<exists>s'. input_update ext [] s = Inr (s', []) \<and> latestButton s' = Some l \<and>
     pressedTime s' = Suc (pressedTime s) \<and> currentState s' = currentState s \<and>
     (\<forall>n. truthy (currentState s') n \<longrightarrow> truthy (previousState s') n) \<and>
     virtualButton s' = None \<and> inputs s' = inputs s \<and> \<not> resetMapFlag s'"
proof -
  let ?prev = "fold (\<lambda>(n, v) m. AList.update n v m) (currentState s) (previousState s)"
  let ?s2 = "s\<lparr>latestButton := Some l, pressedTime := Suc (pressedTime s),
      previousState := ?prev, virtualButton := None\<rparr>"
  have tp: "track_presses s = ?s2" by (rule held_track [OF l ne h pv d vb])
  have "pressedTime ?s2 < 300" using early by simp
  from failsafe_early [OF this]
  have r: "input_update ext [] s = Inr (?s2\<lparr>resetMapFlag := False\<rparr>, [])"
    by (simp add: input_update_def err_bind_def tp)
  have t: "\<forall>n. truthy (currentState s) n \<longrightarrow> truthy ?prev n"
    by (simp add: truthy_fold_update [OF d])
  show ?thesis
    by (rule exI [of _ "?s2\<lparr>resetMapFlag := False\<rparr>"]) (simp add: r t)
qed

lemma chord_frames:
  assumes "latestButton s = Some l" and "l \<noteq> []" and "truthy (currentState s) (hd l)"
    and "\<forall>n. truthy (currentState s) n \<longrightarrow> truthy (previousState s) n"
    and "distinct (map fst (currentState s))"
    and "virtualButton s = None"
    and "\<not> resetMapFlag s"
    and "pressedTime s + n < 300"
  shows "\<exists>s'. hold_frames ext n s = Inr s' \<and> latestButton s' = Some l \<and>
     pressedTime s' = pressedTime s + n \<and> currentState s' = currentState s \<and>
     (\<forall>n. truthy (currentState s') n \<longrightarrow> truthy (previousState s') n) \<and>
     virtualButton s' = None \<and> inputs s' = inputs s \<and> \<not> resetMapFlag s'"
  using assms
proof (induction n arbitrary: s)
  case 0
  then show ?case by simp
next
  case (Suc n)
  have e: "Suc (pressedTime s) < 300" using Suc.prems(8) by simp
  from chord_step [OF Suc.prems(1-6) e, of ext] obtain s1 where
    r: "input_update ext [] s = Inr (s1, [])" and l1: "latestButton s1 = Some l"
    and p1: "pressedTime s1 = Suc (pressedTime s)" and c1: "currentState s1 = currentState s"
    and v1: "\<forall>n. truthy (currentState s1) n \<longrightarrow> truthy (previousState s1) n"
    and b1: "virtualButton s1 = None" and i1: "inputs s1 = inputs s"
    and f1: "\<not> resetMapFlag s1" by blast
  have h1: "truthy (currentState s1) (hd l)" using Suc.prems(3) by (simp add: c1)
  have d1: "distinct (map fst (currentState s1))" using Suc.prems(5) by (simp add: c1)
  have t1: "pressedTime s1 + n < 300" using Suc.prems(8) by (simp add: p1)
  from Suc.IH [OF l1 Suc.prems(2) h1 v1 d1 b1 f1 t1] obtain s' where
    r': "hold_frames ext n s1 = Inr s'" and l': "latestButton s' = Some l"
    and p': "pressedTime s' = pressedTime s1 + n" and c': "currentState s' = currentState s1"
    and v': "\<forall>n. truthy (currentState s') n \<longrightarrow> truthy (previousState s') n"
    and b': "virtualButton s' = None" and i': "inputs s' = inputs s1"
    and f': "\<not> resetMapFlag s'" by blast
  have run: "hold_frames ext (Suc n) s = Inr s'" by (simp add: r r' err_bind_def)
  have p: "pressedTime s' = pressedTime s + Suc n" by (simp add: p' p1)
  have c: "currentState s' = currentState s" by (simp add: c' c1)
  have i: "inputs s' = inputs s" by (simp add: i' i1)
  from run l' p c v' b' i f' show ?case by blast
qed

text \<open>
  The frame in which the pressed time reaches 300 while \<open>static_escape\<close> and
  \<open>static_tab\<close> are held: \<open>Input.update\<close> calls \<open>SQInput.resetMap\<close>, whose
  \<open>Input.clear\<close> leaves \<open>_latestButton\<close> \<open>null\<close> when the update returns.
\<close>

lemma chord_fire:
  assumes l: "latestButton s = Some l" and ne: "l \<noteq> []" and h: "truthy (currentState s) (hd l)"
    and pv: "\<forall>n. truthy (currentState s) n \<longrightarrow> truthy (previousState s) n"
    and d: "distinct (map fst (currentState s))"
    and vb: "virtualButton s = None"
    and pt: "pressedTime s = 299"
    and esc: "truthy (currentState s) ''static_escape''"
    and tab: "truthy (currentState s) ''static_tab''"
    and flag: "\<not> resetMapFlag s"
    and k: "keys_ok (inputs s)"
  shows "\<exists>s'. input_update ext [] s = Inr (s', []) \<and> latestButton s' = None \<and>
     keys_ok (inputs s')"
proof -
  let ?prev = "fold (\<lambda>(n, v) m. AList.update n v m) (currentState s) (previousState s)"
  let ?s2 = "s\<lparr>latestButton := Some l, pressedTime := Suc (pressedTime s),
      previousState := ?prev, virtualButton := None\<rparr>"
  let ?t = "map (\<lambda>(i, input). (i, input\<lparr>keyboardButton := defaultKeyboardButton input,
                                          gamepadButton := defaultGamepButton input\<rparr>)) (inputs s)"
  have tp: "track_presses s = ?s2" by (rule held_track [OF l ne h pv d vb])
  have kt: "keys_ok (inputs (?s2\<lparr>inputs := ?t\<rparr>))"
    using k by (simp add: keys_ok_def map_keys_same)
  from rebuild_ok [OF kt] obtain km gm where
    rb: "rebuildButtonMapper (?s2\<lparr>inputs := ?t\<rparr>) =
         Inr (clear (?s2\<lparr>inputs := ?t, keyMapper := km, gamepadMapper := gm\<rparr>))" by blast
  define s3 where "s3 = clear (?s2\<lparr>inputs := ?t, keyMapper := km, gamepadMapper := gm\<rparr>)"
  have rm: "resetMap ?s2 = Inr s3"
    using rb by (simp add: resetMap_def s3_def)
  have l3: "latestButton s3 = None" by (simp add: s3_def)
  have i3: "inputs s3 = ?t" by (simp add: s3_def clear_def Let_def)
  have k3: "keys_ok (inputs s3)" using k by (simp add: i3 keys_ok_def map_keys_same)
  have long: "isVeryLongPressed ?s2 ''static_escape''" "isVeryLongPressed ?s2 ''static_tab''"
    using esc tab pt by (simp_all add: isVeryLongPressed_def isPressed_def)
  have fr: "failsafe_reset ?s2 = Inr (s3\<lparr>resetMapFlag := True\<rparr>)"
    using long flag rm by (simp add: failsafe_reset_def Let_def err_bind_def)
  have r: "input_update ext [] s = Inr (s3\<lparr>resetMapFlag := True\<rparr>, [])"
    by (simp add: input_update_def err_bind_def tp fr)
  show ?thesis
    by (rule exI [of _ "s3\<lparr>resetMapFlag := True\<rparr>"]) (simp add: r l3 k3)
qed

lemma hold_frames_add:
  "hold_frames ext (m + n) s = err_bind (hold_frames ext m s) (hold_frames ext n)"
  by (induction m arbitrary: s) (auto simp: err_bind_def split: sum.splits prod.splits)

lemma failsafe_fires:
  assumes first: "input_update ext [] s = Inr (s1, [])"
    and l: "latestButton s1 = Some l" and ne: "l \<noteq> []" and h: "truthy (currentState s1) (hd l)"
    and pv: "\<forall>n. truthy (currentState s1) n \<longrightarrow> truthy (previousState s1) n"
    and d: "distinct (map fst (currentState s1))"
    and vb: "virtualButton s1 = None"
    and pt: "pressedTime s1 = 0"
    and esc: "truthy (currentState s1) ''static_escape''"
    and tab: "truthy (currentState s1) ''static_tab''"
    and flag: "\<not> resetMapFlag s1"
    and k: "keys_ok (inputs s1)"
  shows "\<exists>s'. hold_frames ext 301 s = Inr s' \<and> latestButton s' = None \<and> keys_ok (inputs s')"
proof -
  have n: "(301::nat) = Suc (299 + Suc 0)" by simp
  have e: "pressedTime s1 + 299 < 300" by (simp add: pt)
  from chord_frames [OF l ne h pv d vb flag e, of ext] obtain s2 where
    r2: "hold_frames ext 299 s1 = Inr s2" and l2: "latestButton s2 = Some l"
    and p2: "pressedTime s2 = pressedTime s1 + 299" and c2: "currentState s2 = currentState s1"
    and v2: "\<forall>n. truthy (currentState s2) n \<longrightarrow> truthy (previousState s2) n"
    and b2: "virtualButton s2 = None" and i2: "inputs s2 = inputs s1"
    and f2: "\<not> resetMapFlag s2" by blast
  have h2: "truthy (currentState s2) (hd l)" using h by (simp add: c2)
  have d2: "distinct (map fst (currentState s2))" using d by (simp add: c2)
  have t2: "pressedTime s2 = 299" by (simp add: p2 pt)
  have e2: "truthy (currentState s2) ''static_escape''" using esc by (simp add: c2)
  have a2: "truthy (currentState s2) ''static_tab''" using tab by (simp add: c2)
  have k2: "keys_ok (inputs s2)" using k by (simp add: i2)
  from chord_fire [OF l2 ne h2 v2 d2 b2 t2 e2 a2 f2 k2, of ext] obtain s3 where
    r3: "input_update ext [] s2 = Inr (s3, [])" and l3: "latestButton s3 = None"
    and k3: "keys_ok (inputs s3)" by blast
  have g: "\<And>k. hold_frames ext k s1 = Inr s3 \<Longrightarrow> hold_frames ext (Suc k) s = Inr s3"
    by (simp add: first err_bind_def)
  have m: "hold_frames ext (299 + Suc 0) s1 = Inr s3"
    by (simp only: hold_frames_add) (simp add: r2 r3 err_bind_def)
  have "hold_frames ext (Suc (299 + Suc 0)) s = Inr s3" by (rule g [OF m])
  then have "hold_frames ext 301 s = Inr s3" by (simp only: n [symmetric])
  with l3 k3 show ?thesis by blast
qed

text \<open>
  Claim C7 fails in the code. The keys Escape and Tab go down in the initial state and
  stay down: the frame update number 301 resets the controls and returns with
  \<open>_latestButton\<close> \<open>null\<close>, and in that frame \<open>isTriggered\<close> and \<open>isRepeated\<close> throw a
  \<open>TypeError\<close> for every name, the unbound name \<open>jump\<close> among them. The same holds
  right after a call of \<open>SQInput.resetMap\<close>, before the next frame update.
\<close>

theorem unknown_name_query_throws:
  "(\<exists>s. hold_frames idle_externals 301
           (projr (run idle_externals
              [KeyDown \<lparr>ev_code = ''Escape'', ev_keyCode = 27, ev_which = 27\<rparr>,
               KeyDown \<lparr>ev_code = ''Tab'', ev_keyCode = 9, ev_which = 9\<rparr>]
              (projr initial_state))) = Inr s \<and>
        latestButton s = None \<and> ''jump'' \<notin> set (map fst (inputs s)) \<and>
        isTriggered example_esc s ''jump'' = Some (Inl TypeError) \<and>
        isRepeated example_esc s ''jump'' = Some (Inl TypeError) \<and>
        (\<forall>name. isTriggered example_esc s name = Some (Inl TypeError) \<and>
                isRepeated example_esc s name = Some (Inl TypeError))) \<and>
   (\<exists>s. run idle_externals [ResetAll] (projr initial_state) = Inr s \<and>
        latestButton s = None \<and> ''jump'' \<notin> set (map fst (inputs s)) \<and>
        isTriggered example_esc s ''jump'' = Some (Inl TypeError) \<and>
        isRepeated example_esc s ''jump'' = Some (Inl TypeError) \<and>
        (\<forall>name. isTriggered example_esc s name = Some (Inl TypeError) \<and>
                isRepeated example_esc s name = Some (Inl TypeError)))"
proof -
  let ?X = "projr (run idle_externals
              [KeyDown \<lparr>ev_code = ''Escape'', ev_keyCode = 27, ev_which = 27\<rparr>,
               KeyDown \<lparr>ev_code = ''Tab'', ev_keyCode = 9, ev_which = 9\<rparr>]
              (projr initial_state))"
  define s1 where "s1 = fst (projr (input_update idle_externals [] ?X))"
  have ec: "\<not> example_esc ''escape''" by (simp add: example_esc_def)
  have first: "input_update idle_externals [] ?X = Inr (s1, [])"
    unfolding s1_def by code_simp
  have l: "latestButton s1 = Some [''static_escape'', ''static_tab'']"
    unfolding s1_def by code_simp
  have c: "currentState s1 = [(''static_escape'', Some True), (''static_tab'', Some True)]"
    unfolding s1_def by code_simp
  have p: "previousState s1 = [(''static_escape'', Some True), (''static_tab'', Some True)]"
    unfolding s1_def by code_simp
  have vb: "virtualButton s1 = None" unfolding s1_def by code_simp
  have pt: "pressedTime s1 = 0" unfolding s1_def by code_simp
  have flag: "\<not> resetMapFlag s1" unfolding s1_def by code_simp
  have "map fst (inputs s1) = map fst default_inputs" unfolding s1_def by code_simp
  then have k: "keys_ok (inputs s1)" by (simp add: keys_ok_def)
  have ne: "[''static_escape'', ''static_tab''] \<noteq> []" by simp
  have h: "truthy (currentState s1) (hd [''static_escape'', ''static_tab''])"
    by (simp add: c truthy_def)
  have pv: "\<forall>n. truthy (currentState s1) n \<longrightarrow> truthy (previousState s1) n"
    by (simp add: c p)
  have d: "distinct (map fst (currentState s1))" by (simp add: c)
  have e: "truthy (currentState s1) ''static_escape''" by (simp add: c truthy_def)
  have t: "truthy (currentState s1) ''static_tab''" by (simp add: c truthy_def)
  from failsafe_fires [OF first l ne h pv d vb pt e t flag k] obtain s where
    r: "hold_frames idle_externals 301 ?X = Inr s" and ls: "latestButton s = None"
    and ks: "keys_ok (inputs s)" by blast
  have js: "''jump'' \<notin> set (map fst (inputs s))"
    using ks by (simp add: keys_ok_def default_keys)
  have a: "\<exists>s. hold_frames idle_externals 301 ?X = Inr s \<and>
        latestButton s = None \<and> ''jump'' \<notin> set (map fst (inputs s)) \<and>
        isTriggered example_esc s ''jump'' = Some (Inl TypeError) \<and>
        isRepeated example_esc s ''jump'' = Some (Inl TypeError) \<and>
        (\<forall>name. isTriggered example_esc s name = Some (Inl TypeError) \<and>
                isRepeated example_esc s name = Some (Inl TypeError))"
    using r ls js queries_throw [where esc = example_esc, OF ec ls] by blast
  define s' where "s' = projr (run idle_externals [ResetAll] (projr initial_state))"
  have r': "run idle_externals [ResetAll] (projr initial_state) = Inr s'"
    unfolding s'_def by code_simp
  have ls': "latestButton s' = None" unfolding s'_def by code_simp
  have js': "''jump'' \<notin> set (map fst (inputs s'))" unfolding s'_def by code_simp
  have b: "\<exists>s. run idle_externals [ResetAll] (projr initial_state) = Inr s \<and>
        latestButton s = None \<and> ''jump'' \<notin> set (map fst (inputs s)) \<and>
        isTriggered example_esc s ''jump'' = Some (Inl TypeError) \<and>
        isRepeated example_esc s ''jump'' = Some (Inl TypeError) \<and>
        (\<forall>name. isTriggered example_esc s name = Some (Inl TypeError) \<and>
                isRepeated example_esc s name = Some (Inl TypeError))"
    using r' ls' js' queries_throw [where esc = example_esc, OF ec ls'] by blast
  from a b show ?thesis by (rule conjI)
qed

end
